theory Spec2Isabelle
  imports Complex_Main "HOL-Library.AList" "HOL-Library.Log_Nat"
begin

section \<open>Python values and library functions used by \<open>merge_data.py\<close>\<close>

text \<open>
  Exceptions are values. Every function of the source that can raise returns
  \<open>error + 'a\<close>, with \<open>Inl\<close> carrying the exception that would propagate.
\<close>

datatype error =
    RuntimeError string
  | ValueError string
  | KeyError string
  | IndexError
  | IOError string
  | AttributeError string
  | ReError string
  | OverflowError string
  | ZeroDivisionError string

definition bindE :: "error + 'a \<Rightarrow> ('a \<Rightarrow> error + 'b) \<Rightarrow> error + 'b" where
  "bindE m f = (case m of Inl e \<Rightarrow> Inl e | Inr x \<Rightarrow> f x)"

subsection \<open>Strings\<close>

text \<open>
  A Python \<open>str\<close> is a list of characters. \<open>str.isspace\<close> on the code points below 256:
  tab, line feed, vertical tab, form feed, carriage return, the four separators
  0x1C..0x1F, space, 0x85 and 0xA0.
\<close>

definition py_isspace :: "char \<Rightarrow> bool" where
  "py_isspace c = ((of_char c :: nat) \<in> {9, 10, 11, 12, 13, 28, 29, 30, 31, 32, 133, 160})"

text \<open>\<open>s.strip()\<close>\<close>

definition py_strip :: "string \<Rightarrow> string" where
  "py_strip s = rev (dropWhile py_isspace (rev (dropWhile py_isspace s)))"

text \<open>\<open>s.split(sep)\<close> for a one-character separator: never an empty list.\<close>

fun py_split :: "char \<Rightarrow> string \<Rightarrow> string list" where
  "py_split sep [] = [[]]"
| "py_split sep (c # cs) =
     (if c = sep then [] # py_split sep cs
      else (case py_split sep cs of
              [] \<Rightarrow> [[c]]
            | w # ws \<Rightarrow> (c # w) # ws))"

definition starts_with :: "string \<Rightarrow> string \<Rightarrow> bool" where
  "starts_with s p = (take (length p) s = p)"

text \<open>
  \<open>s.replace(old, new)\<close>: the non-overlapping occurrences of \<open>old\<close>, left to right.
  Every call of the source passes a non-empty literal for \<open>old\<close>; for an empty \<open>old\<close>
  this model returns \<open>s\<close> unchanged (Python would insert \<open>new\<close> around every character).
\<close>

function py_replace :: "string \<Rightarrow> string \<Rightarrow> string \<Rightarrow> string" where
  "py_replace old new [] = []"
| "py_replace old new (c # cs) =
     (if old \<noteq> [] \<and> starts_with (c # cs) old
      then new @ py_replace old new (drop (length old) (c # cs))
      else c # py_replace old new cs)"
  by pat_completeness auto
termination
  by (relation "measure (\<lambda>(old, new, s). length s)") auto

text \<open>\<open>s.count(sub)\<close> for a non-empty \<open>sub\<close>: non-overlapping occurrences.\<close>

function py_count :: "string \<Rightarrow> string \<Rightarrow> nat" where
  "py_count sub [] = 0"
| "py_count sub (c # cs) =
     (if sub \<noteq> [] \<and> starts_with (c # cs) sub
      then Suc (py_count sub (drop (length sub) (c # cs)))
      else py_count sub cs)"
  by pat_completeness auto
termination
  by (relation "measure (\<lambda>(sub, s). length s)") auto

text \<open>\<open>str(n)\<close> for a non-negative integer: its decimal digits.\<close>

definition digit_char :: "nat \<Rightarrow> char" where
  "digit_char d = char_of (48 + d)"

fun str_nat :: "nat \<Rightarrow> string" where
  "str_nat n = (if n < 10 then [digit_char n] else str_nat (n div 10) @ [digit_char (n mod 10)])"

declare str_nat.simps [simp del]

definition is_digit :: "char \<Rightarrow> bool" where
  "is_digit c = (48 \<le> (of_char c :: nat) \<and> (of_char c :: nat) \<le> 57)"

definition digit_val :: "char \<Rightarrow> nat" where
  "digit_val c = of_char c - 48"

text \<open>
  \<open>int(s)\<close> for a string of decimal digits; anything else is a \<open>ValueError\<close>. (Python
  also accepts a sign, surrounding blanks and underscores between digits; the source
  calls \<open>int\<close> on a slice of at most one character, where only a digit is accepted.)
\<close>

definition py_int :: "string \<Rightarrow> error + nat" where
  "py_int s =
     (if s \<noteq> [] \<and> list_all is_digit s
      then Inr (foldl (\<lambda>acc c. 10 * acc + digit_val c) 0 s)
      else Inl (ValueError s))"

subsection \<open>Dictionaries\<close>

text \<open>
  A \<open>dict\<close> with string keys is an association list in insertion order with distinct
  keys. \<open>d[k] = v\<close> keeps the position of an existing key and appends a new one
  (\<open>AList.update\<close>); \<open>d[k]\<close> and \<open>del d[k]\<close> raise \<open>KeyError\<close> on a missing key.
\<close>

type_synonym 'v dict = "(string \<times> 'v) list"

definition dict_keys :: "'v dict \<Rightarrow> string list" where
  "dict_keys d = map fst d"

definition dict_values :: "'v dict \<Rightarrow> 'v list" where
  "dict_values d = map snd d"

definition dict_contains :: "'v dict \<Rightarrow> string \<Rightarrow> bool" where
  "dict_contains d k = (k \<in> set (dict_keys d))"

definition dict_get :: "'v dict \<Rightarrow> string \<Rightarrow> error + 'v" where
  "dict_get d k = (case map_of d k of None \<Rightarrow> Inl (KeyError k) | Some v \<Rightarrow> Inr v)"

definition dict_set :: "'v dict \<Rightarrow> string \<Rightarrow> 'v \<Rightarrow> 'v dict" where
  "dict_set d k v = AList.update k v d"

definition dict_del :: "'v dict \<Rightarrow> string \<Rightarrow> error + 'v dict" where
  "dict_del d k = (if dict_contains d k then Inr (AList.delete k d) else Inl (KeyError k))"

text \<open>\<open>d.setdefault(k, v)\<close>: the dictionary afterwards and the value now under \<open>k\<close>.\<close>

definition dict_setdefault :: "'v dict \<Rightarrow> string \<Rightarrow> 'v \<Rightarrow> 'v dict \<times> 'v" where
  "dict_setdefault d k v =
     (case map_of d k of None \<Rightarrow> (d @ [(k, v)], v) | Some v' \<Rightarrow> (d, v'))"

text \<open>A sequence of \<open>del d[k]\<close>, stopping at the first missing key.\<close>

fun del_all :: "'v dict \<Rightarrow> string list \<Rightarrow> error + 'v dict" where
  "del_all d [] = Inr d"
| "del_all d (k # ks) = bindE (dict_del d k) (\<lambda>d'. del_all d' ks)"

text \<open>
  \<open>for item in d.values(): ...\<close> where the body mutates the object \<open>item\<close> in place and
  may raise: the values are replaced one by one, the keys and their order stay.
\<close>

fun map_values :: "('v \<Rightarrow> error + 'v) \<Rightarrow> 'v dict \<Rightarrow> error + 'v dict" where
  "map_values f [] = Inr []"
| "map_values f ((k, v) # d) =
     bindE (f v) (\<lambda>v'. bindE (map_values f d) (\<lambda>d'. Inr ((k, v') # d')))"

subsection \<open>Floats\<close>

text \<open>
  A Python \<open>float\<close> is an IEEE 754 double; a finite one is modelled by the rational number
  it denotes. \<open>round_double\<close> is rounding to the nearest double, ties to even, with the
  exponent unbounded above: 53 significant bits from the exponent \<open>-1022\<close> upwards, and
  the fixed spacing \<open>2 ^ -1074\<close> of the subnormal numbers below.
\<close>

text \<open>The exponent \<open>e\<close> with \<open>2 ^ e \<le> a < 2 ^ (e + 1)\<close>, for a positive \<open>a\<close>.\<close>

definition ilog2 :: "rat \<Rightarrow> int" where
  "ilog2 a = (if 1 \<le> a then bitlen \<lfloor>a\<rfloor> - 1 else - bitlen (\<lceil>1 / a\<rceil> - 1))"

definition round_half_even :: "rat \<Rightarrow> int" where
  "round_half_even m =
     (let f = \<lfloor>m\<rfloor>; r = m - of_int f
      in if r < 1 / 2 then f else if 1 / 2 < r then f + 1 else if even f then f else f + 1)"

text \<open>The exponent of the spacing of the doubles around a positive \<open>a\<close>.\<close>

definition grid :: "rat \<Rightarrow> int" where
  "grid a = max (ilog2 a) (- 1022) - 52"

definition round_double :: "rat \<Rightarrow> rat" where
  "round_double q =
     (if q = 0 then 0
      else let a = \<bar>q\<bar>; p = grid a
           in sgn q * of_int (round_half_even (a / 2 powi p)) * 2 powi p)"

text \<open>
  \<open>float(n)\<close> for an integer \<open>n\<close>: the nearest double, and \<open>OverflowError\<close> when that is
  \<open>2 ^ 1024\<close> or more in magnitude.
\<close>

definition float_of_int :: "int \<Rightarrow> error + rat" where
  "float_of_int n =
     (let x = round_double (of_int n)
      in if x \<noteq> 0 \<and> 1024 \<le> ilog2 \<bar>x\<bar>
         then Inl (OverflowError ''int too large to convert to float'')
         else Inr x)"

text \<open>
  \<open>x / n\<close> for a finite float \<open>x\<close> and an integer \<open>n\<close>: \<open>n\<close> is converted first, a zero
  divisor raises \<open>ZeroDivisionError\<close>, and the quotient of the two doubles is rounded. A
  non-zero converted integer is at least 1 in magnitude, so the quotient cannot overflow.
\<close>

definition float_div_int :: "rat \<Rightarrow> int \<Rightarrow> error + rat" where
  "float_div_int x n =
     bindE (float_of_int n) (\<lambda>y.
       if y = 0 then Inl (ZeroDivisionError ''float division by zero'')
       else Inr (round_double (x / y)))"

section \<open>Data model\<close>

text \<open>
  The command-line flags (\<open>args\<close>). \<open>include_blacklisted\<close> is parsed and never read.
\<close>

record args =
  arg_ours :: bool
  arg_include_tests :: bool
  arg_max_count :: int
  arg_wide_output :: bool
  arg_include_blacklisted :: bool
  arg_summary :: bool
  arg_create_figures :: bool

text \<open>
  Modelled from the spec: the class \<open>parse_mantid_source.AlgFileRecord\<close>, which is
  outside the two source files. A catalog entry has a name, a path, a language, a test
  flag and a module; \<open>AlgRecord.__init__\<close> reads exactly these five attributes.
\<close>

record AlgFileRecord =
  alg_name :: string
  alg_path :: string
  alg_type :: string
  alg_is_test :: bool
  alg_module :: string

text \<open>
  \<open>parse_raw_results.AlgResultRecord\<close>: one line \<open>[name, count, is_child, version]\<close> of
  the raw results.
\<close>

record AlgResultRecord =
  res_name :: string
  res_count :: int
  res_is_child :: bool
  res_version :: string

definition AlgResultRecord_init :: "string \<times> int \<times> bool \<times> string \<Rightarrow> AlgResultRecord" where
  "AlgResultRecord_init entries =
     (case entries of (e0, e1, e2, e3) \<Rightarrow>
        \<lparr>res_name = e0, res_count = e1, res_is_child = e2, res_version = e3\<rparr>)"

text \<open>
  \<open>AlgRecord\<close>. The attributes \<open>superseded\<close>, \<open>line_count\<close> and \<open>is_deprecated\<close> are
  not set by \<open>__init__\<close> but by later passes of \<open>merge\<close>: they are \<open>None\<close> until
  assigned, and reading one that is \<open>None\<close> is an \<open>AttributeError\<close>. The two floats
  (\<open>test_fraction\<close> and the result of \<open>get_internal_fraction\<close>) are the rationals
  that the doubles denote.
\<close>

record AlgRecord =
  ours :: bool
  has_test :: bool
  test_fraction :: rat
  test_count :: nat
  name :: string
  path :: string
  type :: string
  is_test :: bool
  module :: string
  count_direct :: "int list"
  count_internal :: "int list"
  superseded :: "string option"
  line_count :: "string option"
  is_deprecated :: "bool option"

text \<open>The argument of \<open>AlgRecord(data)\<close>, told apart by \<open>isinstance\<close>.\<close>

datatype init_data = FileData AlgFileRecord | StrData string | OtherData string

definition AlgRecord_init :: "init_data \<Rightarrow> error + AlgRecord" where
  "AlgRecord_init data =
     (case data of
        FileData d \<Rightarrow>
          Inr \<lparr>ours = True, has_test = False, test_fraction = 0, test_count = 0,
               name = alg_name d, path = alg_path d, type = alg_type d,
               is_test = alg_is_test d, module = alg_module d,
               count_direct = [0, 0, 0, 0, 0, 0, 0, 0],
               count_internal = [0, 0, 0, 0, 0, 0, 0, 0],
               superseded = None, line_count = None, is_deprecated = None\<rparr>
      | StrData s \<Rightarrow>
          Inr \<lparr>ours = False, has_test = False, test_fraction = 0, test_count = 0,
               name = s, path = ''-'', type = ''-'',
               is_test = False, module = ''-'',
               count_direct = [0, 0, 0, 0, 0, 0, 0, 0],
               count_internal = [0, 0, 0, 0, 0, 0, 0, 0],
               superseded = None, line_count = None, is_deprecated = None\<rparr>
      | OtherData t \<Rightarrow> Inl (RuntimeError (''Bad init type '' @ t)))"

definition index_for_version :: "string \<Rightarrow> error + nat" where
  "index_for_version version =
     (if version = ''3.5'' then Inr 0
      else if version = ''3.6'' then Inr 1
      else if version = ''3.7'' then Inr 2
      else if version = ''3.8'' then Inr 3
      else if version = ''3.9'' then Inr 4
      else if version = ''3.10'' then Inr 5
      else if version = ''3.11'' then Inr 6
      else if version = ''3.12'' then Inr 7
      else Inl (RuntimeError (''Unknown version '' @ version)))"

text \<open>\<open>xs[i] += c\<close> on a list: an index past the end is an \<open>IndexError\<close>.\<close>

definition list_add_at :: "int list \<Rightarrow> nat \<Rightarrow> int \<Rightarrow> error + int list" where
  "list_add_at xs i c = (if i < length xs then Inr (xs[i := xs ! i + c]) else Inl IndexError)"

definition add_result_data :: "AlgRecord \<Rightarrow> AlgResultRecord \<Rightarrow> error + AlgRecord" where
  "add_result_data self result =
     bindE (index_for_version (res_version result)) (\<lambda>index.
       let count = res_count result in
       if res_is_child result
       then bindE (list_add_at (count_internal self) index count)
              (\<lambda>xs. Inr (self\<lparr>count_internal := xs\<rparr>))
       else bindE (list_add_at (count_direct self) index count)
              (\<lambda>xs. Inr (self\<lparr>count_direct := xs\<rparr>)))"

definition get_count :: "AlgRecord \<Rightarrow> int" where
  "get_count self = sum_list (count_direct self) + sum_list (count_internal self)"

definition get_internal_fraction :: "AlgRecord \<Rightarrow> error + rat" where
  "get_internal_fraction self =
     (let count = get_count self in
      if count < 1 then Inr 1
      else bindE (float_of_int (sum_list (count_internal self))) (\<lambda>x. float_div_int x count))"

text \<open>The eight version strings the lookup knows, in slot order.\<close>

definition supported_versions :: "string list" where
  "supported_versions =
     [''3.5'', ''3.6'', ''3.7'', ''3.8'', ''3.9'', ''3.10'', ''3.11'', ''3.12'']"

section \<open>The environment of a run\<close>

text \<open>
  What \<open>merge\<close> reads from outside the two source files: \<open>config.cache_dir\<close>; the file
  system as \<open>update_cache\<close> leaves it (a path with no readable file is \<open>None\<close>, and
  opening it raises \<open>IOError\<close>); the regular-expression substitution \<open>re.sub\<close> of the
  Python library, which may raise on a pattern it cannot compile; the catalog that
  \<open>parse_mantid_source.get_declared_algorithms\<close> returns; and the decoded lines of the
  raw results file.
\<close>

record env =
  cache_dir :: string
  files :: "string \<Rightarrow> string option"
  re_sub :: "string \<Rightarrow> string \<Rightarrow> string \<Rightarrow> error + string"
  declared_algorithms :: "AlgFileRecord list"
  raw_results :: "(string \<times> int \<times> bool \<times> string) list"

definition newline :: char where
  "newline = CHR 0x0A"

definition open_read :: "env \<Rightarrow> string \<Rightarrow> error + string" where
  "open_read e filename =
     (case files e filename of None \<Rightarrow> Inl (IOError filename) | Some text \<Rightarrow> Inr text)"

definition get_algorithm_results :: "env \<Rightarrow> AlgResultRecord list" where
  "get_algorithm_results e = map AlgResultRecord_init (raw_results e)"

definition get_file_length :: "env \<Rightarrow> string \<Rightarrow> error + nat" where
  "get_file_length e filename =
     bindE (open_read e filename) (\<lambda>text. Inr (length (py_split newline (py_strip text))))"

definition get_test_count :: "env \<Rightarrow> string \<Rightarrow> error + nat" where
  "get_test_count e filename =
     bindE (open_read e filename)
       (\<lambda>text. Inr (py_count ''  void test'' text + py_count ''  def test'' text))"

section \<open>Line counts, tests and deprecation\<close>

text \<open>\<open>source.split('/')[-1].split('.')[0]\<close>\<close>

definition basename_of :: "string \<Rightarrow> string" where
  "basename_of source = hd (py_split CHR ''.'' (last (py_split CHR ''/'' source)))"

text \<open>The header path, as both \<open>add_line_count_info\<close> and \<open>is_deprecated\<close> derive it.\<close>

definition header_path :: "env \<Rightarrow> AlgRecord \<Rightarrow> error + string" where
  "header_path e record =
     (let source = path record;
          basename = basename_of source;
          module = last (py_split CHR ''/'' (module record))
      in re_sub e (''/src/'' @ basename @ ''.cpp'')
           (''/inc/Mantid'' @ module @ ''/'' @ basename @ ''.h'') source)"

text \<open>
  The inner \<open>try\<close> around the test file: every exception is swallowed, and what was
  assigned before it stays. Returns the running line count and the record.
\<close>

definition try_test_lines :: "env \<Rightarrow> AlgRecord \<Rightarrow> string \<Rightarrow> nat \<Rightarrow> nat \<Rightarrow> nat \<times> AlgRecord" where
  "try_test_lines e record testsource source_lines count =
     (case get_file_length e testsource of
        Inl _ \<Rightarrow> (count, record)
      | Inr test_lines \<Rightarrow>
          let count = count + test_lines;
              record = record\<lparr>has_test := True\<rparr>
          in (case bindE (float_of_int (int test_lines))
                      (\<lambda>x. float_div_int x (int source_lines)) of
                Inl _ \<Rightarrow> (count, record)
              | Inr fraction \<Rightarrow>
                  let record = record\<lparr>test_fraction := fraction\<rparr>
                  in (case get_test_count e testsource of
                        Inl _ \<Rightarrow> (count, record)
                      | Inr n \<Rightarrow> (count, record\<lparr>test_count := n\<rparr>))))"

text \<open>Header lines (if applicable): a header that cannot be opened adds nothing.\<close>

definition header_lines :: "env \<Rightarrow> AlgRecord \<Rightarrow> nat \<Rightarrow> error + nat" where
  "header_lines e record count =
     (if type record = ''C++'' \<and> \<not> is_test record
      then bindE (header_path e record) (\<lambda>header.
             case get_file_length e header of
               Inl _ \<Rightarrow> Inr count
             | Inr n \<Rightarrow> Inr (count + n))
      else Inr count)"

text \<open>The path of the test file of a record that is not itself a test; \<open>None\<close> if it has none.\<close>

definition test_source :: "env \<Rightarrow> AlgRecord \<Rightarrow> error + string option" where
  "test_source e record =
     (let source = path record;
          basename = basename_of source
      in if type record = ''C++''
         then bindE (re_sub e (''/src/'' @ basename @ ''.cpp'')
                       (''/test/'' @ basename @ ''Test.h'') source)
                (\<lambda>t. Inr (Some t))
         else if type record = ''Python''
         then Inr (Some (py_replace ''/WorkflowAlgorithms'' []
                (py_replace ''.py'' ''Test.py''
                  (py_replace ''/plugins/algorithms/''
                     ''/test/python/plugins/algorithms/'' source))))
         else Inr None)"

text \<open>The body of the outer \<open>try\<close> of \<open>add_line_count_info\<close>.\<close>

definition line_count_body :: "env \<Rightarrow> AlgRecord \<Rightarrow> error + AlgRecord" where
  "line_count_body e record =
     bindE (get_file_length e (path record)) (\<lambda>source_lines.
     bindE (header_lines e record source_lines) (\<lambda>count.
       if \<not> is_test record then
         bindE (test_source e record) (\<lambda>testsource.
           case testsource of
             None \<Rightarrow> Inr (record\<lparr>line_count := Some (str_nat count)\<rparr>)
           | Some ts \<Rightarrow>
               (case try_test_lines e record ts source_lines count of
                  (count, record) \<Rightarrow> Inr (record\<lparr>line_count := Some (str_nat count)\<rparr>)))
       else Inr (record\<lparr>line_count := Some (str_nat count)\<rparr>)))"

text \<open>
  \<open>except IOError\<close>: the body raises only before it assigns anything, so the record
  is still the one passed in.
\<close>

definition add_line_count_info :: "env \<Rightarrow> AlgRecord \<Rightarrow> error + AlgRecord" where
  "add_line_count_info e record =
     (case line_count_body e record of
        Inl (IOError f) \<Rightarrow> Inr (record\<lparr>line_count := Some ''-''\<rparr>)
      | Inl err \<Rightarrow> Inl err
      | Inr record' \<Rightarrow> Inr record')"

text \<open>The function \<open>is_deprecated(record, deprecated_headers)\<close>.\<close>

definition is_deprecated_fn :: "env \<Rightarrow> AlgRecord \<Rightarrow> string list \<Rightarrow> error + bool" where
  "is_deprecated_fn e record deprecated_headers =
     (if type record = ''C++'' \<and> \<not> is_test record
      then bindE (header_path e record) (\<lambda>header. Inr (header \<in> set deprecated_headers))
      else Inr False)"

section \<open>The merge\<close>

text \<open>
  \<open>merge\<close> is a sequence of passes over the dictionary \<open>merged\<close>; each pass of the
  source is one definition here, in the source's order.
\<close>

text \<open>Add known algorithms (found in the source tree).\<close>

fun seed_known :: "AlgRecord dict \<Rightarrow> AlgFileRecord list \<Rightarrow> error + AlgRecord dict" where
  "seed_known merged [] = Inr merged"
| "seed_known merged (alg # algs) =
     bindE (AlgRecord_init (FileData alg))
       (\<lambda>r. seed_known (dict_set merged (alg_name alg) r) algs)"

text \<open>
  Add items from results, adding new records if unknown. The record found or created by
  \<open>setdefault\<close> is mutated in place: it stays under its key, at its position.
\<close>

fun add_results :: "AlgRecord dict \<Rightarrow> AlgResultRecord list \<Rightarrow> error + AlgRecord dict" where
  "add_results merged [] = Inr merged"
| "add_results merged (result # results) =
     bindE (AlgRecord_init (StrData (res_name result))) (\<lambda>fresh.
       case dict_setdefault merged (res_name result) fresh of
         (merged', item) \<Rightarrow>
           bindE (add_result_data item result) (\<lambda>item'.
             add_results (dict_set merged' (res_name result) item') results))"

text \<open>
  Initialize the superseded field. \<open>name[:-2:-1]\<close> is the last character of the name
  (the empty string for an empty name) and \<open>name[:-1]\<close> is the name without it.
\<close>

definition last_char :: "string \<Rightarrow> string" where
  "last_char s = (if s = [] then [] else [last s])"

definition next_version_name :: "string \<Rightarrow> error + string" where
  "next_version_name nm =
     bindE (py_int (last_char nm)) (\<lambda>alg_version. Inr (butlast nm @ str_nat (alg_version + 1)))"

definition set_superseded :: "AlgRecord dict \<Rightarrow> AlgRecord \<Rightarrow> error + AlgRecord" where
  "set_superseded merged item =
     bindE (next_version_name (name item)) (\<lambda>next_name.
       let superseded = (if dict_contains merged next_name then ''superseded'' else ''          -'')
       in Inr (item\<lparr>superseded := Some superseded\<rparr>))"

definition init_superseded :: "AlgRecord dict \<Rightarrow> error + AlgRecord dict" where
  "init_superseded merged = map_values (set_superseded merged) merged"

text \<open>Add line counts and similar info.\<close>

definition add_line_counts :: "env \<Rightarrow> AlgRecord dict \<Rightarrow> error + AlgRecord dict" where
  "add_line_counts e merged = map_values (add_line_count_info e) merged"

text \<open>Add deprecation info.\<close>

definition add_deprecation :: "env \<Rightarrow> AlgRecord dict \<Rightarrow> error + AlgRecord dict" where
  "add_deprecation e merged =
     bindE (open_read e (cache_dir e @ ''/deprecated-algorithms'')) (\<lambda>text.
       let deprecated_headers = py_split newline text in
       map_values (\<lambda>item. bindE (is_deprecated_fn e item deprecated_headers)
                     (\<lambda>b. Inr (item\<lparr>is_deprecated := Some b\<rparr>))) merged)"

definition load_blacklist :: "env \<Rightarrow> error + string list" where
  "load_blacklist e =
     bindE (open_read e ''blacklist'') (\<lambda>text. Inr (py_split newline (py_strip text)))"

text \<open>Remove unwanted items based on arguments: collect the keys, then delete them.\<close>

definition to_delete :: "args \<Rightarrow> AlgRecord dict \<Rightarrow> string list" where
  "to_delete a merged =
     concat (map (\<lambda>(key, val).
                (if arg_ours a \<and> \<not> ours val then [key] else []) @
                (if \<not> arg_include_tests a \<and> is_test val then [key] else [])) merged)"

definition remove_unwanted :: "args \<Rightarrow> AlgRecord dict \<Rightarrow> error + AlgRecord dict" where
  "remove_unwanted a merged = del_all merged (to_delete a merged)"

text \<open>Special cases: Q1D2.\<close>

definition special_cases :: "AlgRecord dict \<Rightarrow> error + AlgRecord dict" where
  "special_cases merged =
     bindE (dict_get merged ''Q1D.v2'') (\<lambda>tmp.
       let tmp = tmp\<lparr>name := ''Q1D2.v1''\<rparr> in
       bindE (dict_del merged ''Q1D.v2'') (\<lambda>merged.
         Inr (dict_set merged ''Q1D2.v1'' tmp)))"

text \<open>
  The dictionary when \<open>merge\<close> reaches ``Remove blacklisted items'': seeded, folded,
  and annotated with supersession, line counts and deprecation.
\<close>

definition merge_annotated :: "env \<Rightarrow> error + AlgRecord dict" where
  "merge_annotated e =
     bindE (seed_known [] (declared_algorithms e)) (\<lambda>merged.
     bindE (add_results merged (get_algorithm_results e)) (\<lambda>merged.
     bindE (init_superseded merged) (\<lambda>merged.
     bindE (add_line_counts e merged) (\<lambda>merged.
       add_deprecation e merged))))"

text \<open>The dictionary when \<open>merge\<close> reaches ``Special cases''.\<close>

definition merge_filtered :: "args \<Rightarrow> env \<Rightarrow> error + AlgRecord dict" where
  "merge_filtered a e =
     bindE (merge_annotated e) (\<lambda>merged.
     bindE (load_blacklist e) (\<lambda>blacklist.
     bindE (del_all merged blacklist) (\<lambda>merged.
       remove_unwanted a merged)))"

definition merge :: "args \<Rightarrow> env \<Rightarrow> error + AlgRecord dict" where
  "merge a e = bindE (merge_filtered a e) special_cases"

section \<open>The summary\<close>

text \<open>
  \<open>Summary\<close>; its counter of superseded records is \<open>n_superseded\<close> here, \<open>superseded\<close>
  being the attribute of \<open>AlgRecord\<close>.
\<close>

record Summary =
  total :: nat
  unused :: nat
  up_to_threshold :: nat
  deprecated :: nat
  n_superseded :: nat
  untested :: nat

definition Summary_init :: Summary where
  "Summary_init = \<lparr>total = 0, unused = 0, up_to_threshold = 0, deprecated = 0,
                    n_superseded = 0, untested = 0\<rparr>"

text \<open>
  One iteration of the loop of \<open>get_summary\<close>. \<open>r.superseded is 'superseded'\<close> compares
  with the interned literal that \<open>merge\<close> assigned: equality of the strings.
\<close>

definition summary_step :: "args \<Rightarrow> Summary \<Rightarrow> AlgRecord \<Rightarrow> error + Summary" where
  "summary_step a summary r =
     (let summary = summary\<lparr>total := total summary + 1\<rparr> in
      case is_deprecated r of
        None \<Rightarrow> Inl (AttributeError ''is_deprecated'')
      | Some dep \<Rightarrow>
          let summary = (if dep then summary\<lparr>deprecated := deprecated summary + 1\<rparr> else summary);
              summary = (if \<not> has_test r then summary\<lparr>untested := untested summary + 1\<rparr>
                         else summary)
          in (case superseded r of
               None \<Rightarrow> Inl (AttributeError ''superseded'')
             | Some mark \<Rightarrow>
                 let summary = (if mark = ''superseded''
                                then summary\<lparr>n_superseded := n_superseded summary + 1\<rparr>
                                else summary);
                     count = get_count r;
                     summary = (if count = 0
                                then (summary\<lparr>unused := unused summary + 1\<rparr>)
                                       \<lparr>up_to_threshold := up_to_threshold summary + 1\<rparr>
                                else summary);
                     summary = (if 0 < count \<and> count \<le> arg_max_count a
                                then summary\<lparr>up_to_threshold := up_to_threshold summary + 1\<rparr>
                                else summary)
                 in Inr summary))"

fun summary_loop :: "args \<Rightarrow> Summary \<Rightarrow> AlgRecord list \<Rightarrow> error + Summary" where
  "summary_loop a summary [] = Inr summary"
| "summary_loop a summary (r # rs) =
     bindE (summary_step a summary r) (\<lambda>summary'. summary_loop a summary' rs)"

definition get_summary :: "args \<Rightarrow> AlgRecord dict \<Rightarrow> error + Summary" where
  "get_summary a merged = summary_loop a Summary_init (dict_values merged)"

section \<open>Concrete runs\<close>

text \<open>The flags of a run with no option given.\<close>

definition default_args :: args where
  "default_args = \<lparr>arg_ours = False, arg_include_tests = False, arg_max_count = -1,
     arg_wide_output = False, arg_include_blacklisted = False, arg_summary = False,
     arg_create_figures = False\<rparr>"

text \<open>
  A run with an empty catalog: the text of the file \<open>blacklist\<close>, an empty
  \<open>deprecated-algorithms\<close> file in the cache directory, no other file, and the given
  lines of raw results. No record of such a run has type \<open>C++\<close>, so \<open>re.sub\<close> is never
  called; it is the identity on the subject here.
\<close>

definition run_env :: "string \<Rightarrow> (string \<times> int \<times> bool \<times> string) list \<Rightarrow> env" where
  "run_env blacklist_text results =
     \<lparr>cache_dir = ''cache'',
      files = map_of [(''blacklist'', blacklist_text), (''cache/deprecated-algorithms'', [])],
      re_sub = (\<lambda>pattern repl subject. Inr subject),
      declared_algorithms = [],
      raw_results = results\<rparr>"

text \<open>What a run reports per key: the use count, the supersession mark.\<close>

definition counts_of :: "error + AlgRecord dict \<Rightarrow> error + (string \<times> int) list" where
  "counts_of res = map_sum id (map (\<lambda>(k, r). (k, get_count r))) res"

definition marks_of :: "error + AlgRecord dict \<Rightarrow> error + (string \<times> string option) list" where
  "marks_of res = map_sum id (map (\<lambda>(k, r). (k, superseded r))) res"

text \<open>A record as \<open>__init__\<close> leaves it for a name, with the given count arrays.\<close>

definition record_with :: "string \<Rightarrow> int list \<Rightarrow> int list \<Rightarrow> AlgRecord" where
  "record_with nm direct internal =
     \<lparr>ours = False, has_test = False, test_fraction = 0, test_count = 0,
      name = nm, path = ''-'', type = ''-'', is_test = False, module = ''-'',
      count_direct = direct, count_internal = internal,
      superseded = None, line_count = None, is_deprecated = None\<rparr>"

text \<open>
  A record known from the results only, after the passes of \<open>merge\<close> in a run with no
  file at the path \<open>-\<close>: its supersession mark is set, its line count is \<open>-\<close>, and it
  is not deprecated.
\<close>

definition annotated :: "string \<Rightarrow> int list \<Rightarrow> int list \<Rightarrow> string \<Rightarrow> AlgRecord" where
  "annotated nm direct internal mark =
     (record_with nm direct internal)
       \<lparr>superseded := Some mark, line_count := Some ''-'', is_deprecated := Some False\<rparr>"

definition mixed_sign_record :: AlgRecord where
  "mixed_sign_record =
     annotated ''Q1D2.v1'' [-5, 0, 0, 0, 0, 0, 0, 0] [6, 0, 0, 0, 0, 0, 0, 0] ''          -''"

definition summary_example :: "AlgRecord dict" where
  "summary_example =
     [(''Q1D.v1'',
       annotated ''Q1D.v1'' [0, 0, 0, 0, 0, 0, 0, 0] [0, 0, 0, 0, 0, 0, 0, 0] ''superseded''),
      (''Q1D2.v1'',
       annotated ''Q1D2.v1'' [0, 0, 0, 0, 0, 0, 0, 0] [0, 4, 0, 0, 0, 0, 0, 0] ''          -'')]"

text \<open>
  A run with one catalog entry, the Python algorithm that declares \<open>Q1D.v2\<close>, whose source
  file is not there to be read; \<open>B.v1\<close> is blacklisted.
\<close>

definition catalog_env :: env where
  "catalog_env =
     (run_env ''B.v1'' [(''B.v1'', 1, False, ''3.5''), (''Q1D.v2'', 4, True, ''3.6'')])
       \<lparr>declared_algorithms :=
          [\<lparr>alg_name = ''Q1D.v2'', alg_path = ''algorithms/Q1D2.py'', alg_type = ''Python'',
            alg_is_test = False, alg_module = ''Algorithms''\<rparr>]\<rparr>"

definition catalog_record :: AlgRecord where
  "catalog_record =
     (annotated ''Q1D2.v1'' [0, 0, 0, 0, 0, 0, 0, 0] [0, 4, 0, 0, 0, 0, 0, 0] ''          -'')
       \<lparr>ours := True, path := ''algorithms/Q1D2.py'', type := ''Python'',
        module := ''Algorithms''\<rparr>"

definition all_flags :: args where
  "all_flags = default_args\<lparr>arg_ours := True, arg_include_tests := True,
     arg_include_blacklisted := True\<rparr>"

text \<open>A run in which both \<open>Q1D.v2\<close> and \<open>Q1D2.v1\<close> were observed.\<close>

definition collision_env :: env where
  "collision_env = run_env ''B.v1''
     [(''B.v1'', 1, False, ''3.5''), (''Q1D.v2'', 2, False, ''3.5''),
      (''Q1D2.v1'', 9, False, ''3.5'')]"

definition collision_filtered :: "AlgRecord dict" where
  "collision_filtered =
     [(''Q1D.v2'',
       annotated ''Q1D.v2'' [2, 0, 0, 0, 0, 0, 0, 0] [0, 0, 0, 0, 0, 0, 0, 0] ''          -''),
      (''Q1D2.v1'',
       annotated ''Q1D2.v1'' [9, 0, 0, 0, 0, 0, 0, 0] [0, 0, 0, 0, 0, 0, 0, 0] ''          -'')]"

text \<open>The same observations, with \<open>Q1D2.v1\<close> on the blacklist.\<close>

definition blacklisted_target_env :: env where
  "blacklisted_target_env = run_env ''Q1D2.v1''
     [(''Q1D2.v1'', 9, False, ''3.5''), (''Q1D.v2'', 2, False, ''3.5'')]"

text \<open>
  The run of the example: an empty catalog, the two observations of \<open>A.v1\<close> and \<open>A.v2\<close>,
  an empty \<open>deprecated-algorithms\<close> file and an empty \<open>blacklist\<close> file.
\<close>

definition example_env :: env where
  "example_env = run_env [] [(''A.v1'', 3, False, ''3.5''), (''A.v2'', 7, True, ''3.6'')]"

definition example_A1 :: AlgRecord where
  "example_A1 =
     annotated ''A.v1'' [3, 0, 0, 0, 0, 0, 0, 0] [0, 0, 0, 0, 0, 0, 0, 0] ''superseded''"

definition example_A2 :: AlgRecord where
  "example_A2 =
     annotated ''A.v2'' [0, 0, 0, 0, 0, 0, 0, 0] [0, 7, 0, 0, 0, 0, 0, 0] ''          -''"

text \<open>A run whose blacklist names an algorithm that is neither declared nor observed.\<close>

definition stale_blacklist_env :: env where
  "stale_blacklist_env = run_env ''Z.v9'' [(''A.v1'', 3, False, ''3.5'')]"

text \<open>A run with an observation of the unsupported version \<open>4.0\<close>.\<close>

definition unknown_version_env :: env where
  "unknown_version_env = run_env ''B.v1''
     [(''B.v1'', 1, False, ''3.5''), (''Q1D.v2'', 4, True, ''4.0'')]"

text \<open>A run with versions 19 and 20 of an algorithm \<open>X\<close>.\<close>

definition two_digit_env :: env where
  "two_digit_env = run_env ''B.v1''
     [(''B.v1'', 1, False, ''3.5''), (''Q1D.v2'', 1, False, ''3.5''),
      (''X.v19'', 1, False, ''3.5''), (''X.v20'', 1, False, ''3.5'')]"

section \<open>Properties of the library model\<close>

lemma bindE_simps [simp]: "bindE (Inl e) f = Inl e" "bindE (Inr x) f = f x"
  by (simp_all add: bindE_def)

lemma bindE_Inr_iff: "bindE m f = Inr y \<longleftrightarrow> (\<exists>x. m = Inr x \<and> f x = Inr y)"
  by (cases m) simp_all

lemma bindE_Inl_iff: "bindE m f = Inl e \<longleftrightarrow> (m = Inl e \<or> (\<exists>x. m = Inr x \<and> f x = Inl e))"
  by (cases m) simp_all

lemma sum_list_nonneg_all: "list_all (\<lambda>c. (0::int) \<le> c) xs \<Longrightarrow> 0 \<le> sum_list xs"
  by (induction xs) auto

lemma map_values_rel:
  "map_values f d = Inr d' \<Longrightarrow>
     list_all2 (\<lambda>x y. fst y = fst x \<and> f (snd x) = Inr (snd y)) d d'"
proof (induction d arbitrary: d')
  case Nil
  then show ?case by simp
next
  case (Cons kv d)
  obtain k v where kv: "kv = (k, v)" by (cases kv)
  from Cons.prems kv obtain v' d1 where
    "f v = Inr v'" "map_values f d = Inr d1" "d' = (k, v') # d1"
    by (auto simp: bindE_Inr_iff)
  with Cons.IH kv show ?case by simp
qed

lemma map_values_keys: "map_values f d = Inr d' \<Longrightarrow> map fst d' = map fst d"
  by (drule map_values_rel) (induction d d' rule: list_all2_induct, auto)

lemma map_values_member:
  "map_values f d = Inr d' \<Longrightarrow> (k, v') \<in> set d' \<Longrightarrow> \<exists>v. (k, v) \<in> set d \<and> f v = Inr v'"
proof (induction d arbitrary: d')
  case Nil
  then show ?case by simp
next
  case (Cons kv d)
  obtain k0 v0 where kv: "kv = (k0, v0)" by (cases kv)
  from Cons.prems(1) kv obtain v1 d1 where
    st: "f v0 = Inr v1" "map_values f d = Inr d1" "d' = (k0, v1) # d1"
    by (auto simp: bindE_Inr_iff)
  from Cons.prems(2) st(3) have "(k, v') = (k0, v1) \<or> (k, v') \<in> set d1" by simp
  then show ?case
  proof
    assume "(k, v') = (k0, v1)"
    with st(1) kv show ?thesis by auto
  next
    assume "(k, v') \<in> set d1"
    from Cons.IH[OF st(2) this] show ?thesis by auto
  qed
qed

lemma del_all_filter:
  "del_all d ks = Inr d' \<Longrightarrow> d' = filter (\<lambda>p. fst p \<notin> set ks) d"
proof (induction ks arbitrary: d)
  case Nil
  then show ?case by simp
next
  case (Cons k ks)
  from Cons.prems have "del_all (AList.delete k d) ks = Inr d'"
    by (auto simp: bindE_Inr_iff dict_del_def split: if_splits)
  from Cons.IH[OF this] show ?case
    by (auto simp add: AList.delete_eq case_prod_beta intro!: filter_cong)
qed

lemma del_all_keys_present:
  "del_all d ks = Inr d' \<Longrightarrow> set ks \<subseteq> fst ` set d"
proof (induction ks arbitrary: d)
  case Nil
  then show ?case by simp
next
  case (Cons k ks)
  from Cons.prems have k: "k \<in> fst ` set d" and rest: "del_all (AList.delete k d) ks = Inr d'"
    by (auto simp: bindE_Inr_iff dict_del_def dict_contains_def dict_keys_def split: if_splits)
  from Cons.IH[OF rest] have "set ks \<subseteq> fst ` set (AList.delete k d)" .
  then have "set ks \<subseteq> fst ` set d" by (auto simp: AList.delete_eq)
  with k show ?case by simp
qed

lemma del_all_error:
  "del_all d ks = Inl err \<Longrightarrow> \<exists>k. k \<in> set ks \<and> err = KeyError k"
proof (induction ks arbitrary: d)
  case Nil
  then show ?case by simp
next
  case (Cons k ks)
  then show ?case
    by (auto simp: bindE_Inl_iff dict_del_def split: if_splits)
qed

lemma del_all_missing:
  assumes "\<not> set ks \<subseteq> fst ` set d"
  shows "\<exists>k. k \<in> set ks \<and> del_all d ks = Inl (KeyError k)"
proof (cases "del_all d ks")
  case (Inl err)
  from del_all_error[OF Inl] Inl show ?thesis by auto
next
  case (Inr d')
  from del_all_keys_present[OF Inr] assms show ?thesis by simp
qed

lemma AlgRecord_init_File:
  "\<exists>r. AlgRecord_init (FileData alg) = Inr r \<and> name r = alg_name alg \<and>
     length (count_direct r) = 8 \<and> length (count_internal r) = 8 \<and>
     list_all (\<lambda>c. 0 \<le> c) (count_direct r @ count_internal r)"
  by (simp add: AlgRecord_init_def)

lemma AlgRecord_init_Str:
  "\<exists>r. AlgRecord_init (StrData s) = Inr r \<and> name r = s \<and>
     length (count_direct r) = 8 \<and> length (count_internal r) = 8 \<and>
     list_all (\<lambda>c. 0 \<le> c) (count_direct r @ count_internal r)"
  by (simp add: AlgRecord_init_def)

lemma index_for_version_supported:
  "map index_for_version supported_versions = map Inr [0, 1, 2, 3, 4, 5, 6, 7]"
  by (simp add: supported_versions_def index_for_version_def)

lemma index_for_version_unknown:
  "version \<notin> set supported_versions \<Longrightarrow>
     index_for_version version = Inl (RuntimeError (''Unknown version '' @ version))"
  by (simp add: supported_versions_def index_for_version_def)

lemma index_for_version_bound: "index_for_version version = Inr i \<Longrightarrow> i < 8 \<and> version \<in> set supported_versions"
  by (auto simp: index_for_version_def supported_versions_def split: if_splits)

section \<open>Properties of the float model\<close>

lemma pow2_of_int_le: "(2::int) ^ k \<le> n \<Longrightarrow> (2::rat) ^ k \<le> of_int n"
proof -
  assume "(2::int) ^ k \<le> n"
  then have "(of_int ((2::int) ^ k) :: rat) \<le> of_int n" by (simp only: of_int_le_iff)
  then show ?thesis by simp
qed

lemma of_int_le_pow2: "n \<le> (2::int) ^ k \<Longrightarrow> (of_int n :: rat) \<le> 2 ^ k"
proof -
  assume "n \<le> (2::int) ^ k"
  then have "(of_int n :: rat) \<le> of_int ((2::int) ^ k)" by (simp only: of_int_le_iff)
  then show ?thesis by simp
qed

lemma bitlen_ge_1: "0 < n \<Longrightarrow> 1 \<le> bitlen n"
  using bitlen_eq_zero_iff[of n] bitlen_nonneg[of n] by linarith

lemma ilog2_bounds:
  assumes "0 < a"
  shows "2 powi (ilog2 a) \<le> a \<and> a < 2 powi (ilog2 a + 1)"
proof (cases "1 \<le> a")
  case True
  define n where "n = \<lfloor>a\<rfloor>"
  have n1: "1 \<le> n" using True by (simp add: n_def le_floor_iff)
  then have npos: "0 < n" by simp
  define k where "k = nat (bitlen n - 1)"
  have bl: "1 \<le> bitlen n" using npos by (rule bitlen_ge_1)
  have bk: "bitlen n = int k + 1" using bl unfolding k_def by arith
  have k0: "nat (bitlen n - 1) = k" by (simp only: k_def)
  have k1: "nat (bitlen n) = Suc k" using bl unfolding k_def by arith
  from bitlen_bounds[OF npos] have b: "2 ^ k \<le> n" "n < 2 ^ Suc k"
    unfolding k0 k1 by blast+
  have e: "ilog2 a = int k" using True bk by (simp add: ilog2_def n_def)
  have na: "(of_int n :: rat) \<le> a" by (simp add: n_def)
  have "(2::rat) ^ k \<le> of_int n" using b(1) by (rule pow2_of_int_le)
  with na have lo: "(2::rat) ^ k \<le> a" by linarith
  have an: "a < of_int (n + 1)" unfolding n_def by linarith
  have "n + 1 \<le> 2 ^ Suc k" using b(2) by simp
  then have "(of_int (n + 1) :: rat) \<le> 2 ^ Suc k" by (rule of_int_le_pow2)
  with an have hi: "a < 2 ^ Suc k" by linarith
  have "2 powi (int k + 1) = (2::rat) ^ Suc k"
    by (simp add: power_int_add)
  with lo hi e show ?thesis by simp
next
  case False
  then have a1: "a < 1" by simp
  define N where "N = \<lceil>1 / a\<rceil>"
  have inv: "1 < 1 / a" using assms a1 by simp
  then have N2: "2 \<le> N" unfolding N_def by (simp add: le_ceiling_iff)
  then have npos: "0 < N - 1" by simp
  define k where "k = nat (bitlen (N - 1) - 1)"
  have bl: "1 \<le> bitlen (N - 1)" using npos by (rule bitlen_ge_1)
  have bk: "bitlen (N - 1) = int k + 1" using bl unfolding k_def by arith
  have k0: "nat (bitlen (N - 1) - 1) = k" by (simp only: k_def)
  have k1: "nat (bitlen (N - 1)) = Suc k" using bl unfolding k_def by arith
  from bitlen_bounds[OF npos] have b: "2 ^ k \<le> N - 1" "N - 1 < 2 ^ Suc k"
    unfolding k0 k1 by blast+
  have e: "ilog2 a = - (int k + 1)" using False bk by (simp add: ilog2_def N_def)
  have aN: "1 / a \<le> of_int N" by (simp add: N_def)
  have "N \<le> 2 ^ Suc k" using b(2) by simp
  then have "(of_int N :: rat) \<le> 2 ^ Suc k" by (rule of_int_le_pow2)
  with aN have "1 / a \<le> 2 ^ Suc k" by linarith
  then have "1 \<le> a * 2 ^ Suc k" using assms by (simp add: field_simps)
  then have "1 / 2 ^ Suc k \<le> a" by (simp add: field_simps)
  moreover have "2 powi (- (int k + 1)) = 1 / (2::rat) ^ Suc k"
  proof -
    have eq: "- (int k + 1) = - int (Suc k)" by simp
    show ?thesis unfolding eq power_int_minus_divide power_int_of_nat ..
  qed
  ultimately have lo: "2 powi (- (int k + 1)) \<le> a" by simp
  have Na: "of_int (N - 1) < 1 / a" unfolding N_def by linarith
  have "(2::rat) ^ k \<le> of_int (N - 1)" using b(1) by (rule pow2_of_int_le)
  with Na have "(2::rat) ^ k < 1 / a" by linarith
  then have "a * 2 ^ k < 1" using assms by (simp add: field_simps)
  then have "a < 1 / 2 ^ k" by (simp add: field_simps)
  moreover have "2 powi (- (int k + 1) + 1) = 1 / (2::rat) ^ k"
  proof -
    have eq: "- (int k + 1) + 1 = - int k" by simp
    show ?thesis unfolding eq power_int_minus_divide power_int_of_nat ..
  qed
  ultimately have hi: "a < 2 powi (- (int k + 1) + 1)" by simp
  from lo hi e show ?thesis by simp
qed


lemma ilog2_unique:
  assumes "2 powi e \<le> a" and "a < 2 powi (e + 1)"
  shows "ilog2 a = e"
proof -
  have "(0::rat) < 2 powi e" by simp
  with assms(1) have pos: "0 < a" by linarith
  from ilog2_bounds[OF pos] have b: "2 powi (ilog2 a) \<le> a" "a < 2 powi (ilog2 a + 1)"
    by simp_all
  have "\<not> ilog2 a < e"
  proof
    assume "ilog2 a < e"
    then have "ilog2 a + 1 \<le> e" by simp
    then have "(2::rat) powi (ilog2 a + 1) \<le> 2 powi e" by (rule power_int_increasing) simp
    with b(2) assms(1) show False by linarith
  qed
  moreover have "\<not> e < ilog2 a"
  proof
    assume "e < ilog2 a"
    then have "e + 1 \<le> ilog2 a" by simp
    then have "(2::rat) powi (e + 1) \<le> 2 powi (ilog2 a)" by (rule power_int_increasing) simp
    with b(1) assms(2) show False by linarith
  qed
  ultimately show ?thesis by linarith
qed

lemma ilog2_mono:
  assumes "0 < a" and "a \<le> b"
  shows "ilog2 a \<le> ilog2 b"
proof (rule ccontr)
  assume "\<not> ilog2 a \<le> ilog2 b"
  then have "ilog2 b + 1 \<le> ilog2 a" by simp
  then have "(2::rat) powi (ilog2 b + 1) \<le> 2 powi (ilog2 a)" by (rule power_int_increasing) simp
  moreover from assms have "0 < b" by linarith
  ultimately show False
    using ilog2_bounds[OF assms(1)] ilog2_bounds[OF \<open>0 < b\<close>] assms(2) by linarith
qed

lemma round_half_even_bounds: "\<lfloor>m\<rfloor> \<le> round_half_even m \<and> round_half_even m \<le> \<lceil>m\<rceil>"
proof -
  have lo: "\<lfloor>m\<rfloor> \<le> round_half_even m"
    by (simp add: round_half_even_def Let_def)
  have hi: "round_half_even m \<le> \<lceil>m\<rceil>"
  proof (cases "m = of_int \<lfloor>m\<rfloor>")
    case True
    then have "m - of_int \<lfloor>m\<rfloor> < 1 / 2" by simp
    then have "round_half_even m = \<lfloor>m\<rfloor>" by (simp add: round_half_even_def Let_def)
    then show ?thesis by (simp add: floor_le_ceiling)
  next
    case False
    then have "\<lceil>m\<rceil> = \<lfloor>m\<rfloor> + 1" by (simp add: ceiling_altdef)
    then show ?thesis by (simp add: round_half_even_def Let_def)
  qed
  from lo hi show ?thesis by simp
qed

lemma round_half_even_of_int [simp]: "round_half_even (of_int k) = k"
  by (simp add: round_half_even_def Let_def)

lemma round_half_even_mono:
  assumes "m1 \<le> m2"
  shows "round_half_even m1 \<le> round_half_even m2"
proof (cases "\<lfloor>m1\<rfloor> = \<lfloor>m2\<rfloor>")
  case True
  then have "m1 - of_int \<lfloor>m1\<rfloor> \<le> m2 - of_int \<lfloor>m2\<rfloor>" using assms by simp
  then show ?thesis using True by (auto simp: round_half_even_def Let_def)
next
  case False
  from assms have "\<lfloor>m1\<rfloor> \<le> \<lfloor>m2\<rfloor>" by (rule floor_mono)
  with False have "\<lfloor>m1\<rfloor> + 1 \<le> \<lfloor>m2\<rfloor>" by simp
  moreover have "round_half_even m1 \<le> \<lfloor>m1\<rfloor> + 1"
    by (simp add: round_half_even_def Let_def)
  moreover have "\<lfloor>m2\<rfloor> \<le> round_half_even m2"
    using round_half_even_bounds by simp
  ultimately show ?thesis by linarith
qed


lemma round_double_pos:
  "0 < a \<Longrightarrow> round_double a = of_int (round_half_even (a / 2 powi grid a)) * 2 powi grid a"
  by (simp add: round_double_def Let_def)

lemma round_double_nonneg: "0 \<le> q \<Longrightarrow> 0 \<le> round_double q"
proof (cases "q = 0")
  case True
  then show ?thesis by (simp add: round_double_def)
next
  case False
  assume "0 \<le> q"
  with False have pos: "0 < q" by simp
  have "0 \<le> q / 2 powi grid q" using pos by simp
  then have "0 \<le> \<lfloor>q / 2 powi grid q\<rfloor>" by simp
  with round_half_even_bounds[of "q / 2 powi grid q"]
  have "0 \<le> round_half_even (q / 2 powi grid q)" by linarith
  then show ?thesis using pos by (simp add: round_double_pos)
qed

lemma round_double_mono_pos:
  assumes "0 < a" and "a \<le> b"
  shows "round_double a \<le> round_double b"
proof -
  from assms have bpos: "0 < b" by linarith
  have g: "grid a \<le> grid b" using ilog2_mono[OF assms] by (simp add: grid_def)
  show ?thesis
  proof (cases "grid a = grid b")
    case True
    have "a / 2 powi grid b \<le> b / 2 powi grid b"
      using assms(2) by (simp add: divide_right_mono)
    then have "round_half_even (a / 2 powi grid b) \<le> round_half_even (b / 2 powi grid b)"
      by (rule round_half_even_mono)
    then have "(of_int (round_half_even (a / 2 powi grid b)) :: rat) * 2 powi grid b
        \<le> of_int (round_half_even (b / 2 powi grid b)) * 2 powi grid b"
      by (simp add: mult_right_mono)
    then show ?thesis using True assms(1) bpos by (simp add: round_double_pos)
  next
    case False
    with g have lt: "grid a < grid b" by simp
    define E where "E = ilog2 b"
    from lt have eb: "grid b = E - 52" and ea: "ilog2 a < E" and ga: "grid a < E - 52"
      by (auto simp: grid_def E_def max_def split: if_splits)
    \<comment> \<open>the rounded \<open>b\<close> is at least \<open>2 ^ E\<close>\<close>
    define K :: int where "K = 2 ^ 52"
    define mb where "mb = round_half_even (b / 2 powi grid b)"
    have Kb: "(of_int K :: rat) * 2 powi grid b = 2 powi E"
    proof -
      have "(2::rat) powi E = 2 powi (52 + grid b)" by (simp add: eb)
      also have "\<dots> = 2 powi 52 * 2 powi grid b" by (rule power_int_add) simp
      finally show ?thesis by (simp add: K_def)
    qed
    have "2 powi E \<le> b" using ilog2_bounds[OF bpos] by (simp add: E_def)
    then have "2 powi E / 2 powi grid b \<le> b / 2 powi grid b"
      by (simp add: divide_right_mono)
    moreover have "(2::rat) powi E / 2 powi grid b = of_int K"
      unfolding Kb[symmetric] by simp
    ultimately have "(of_int K :: rat) \<le> b / 2 powi grid b" by (simp only:)
    then have "K \<le> \<lfloor>b / 2 powi grid b\<rfloor>" by (simp only: le_floor_iff)
    with round_half_even_bounds[of "b / 2 powi grid b"]
    have "K \<le> mb" unfolding mb_def by linarith
    then have "(of_int K :: rat) \<le> of_int mb" by (simp only: of_int_le_iff)
    then have "(of_int K :: rat) * 2 powi grid b \<le> of_int mb * 2 powi grid b"
      by (rule mult_right_mono) simp
    moreover have "round_double b = of_int mb * 2 powi grid b"
      unfolding mb_def by (rule round_double_pos[OF bpos])
    ultimately have hi: "2 powi E \<le> round_double b"
      unfolding Kb by (simp only:)
    \<comment> \<open>the rounded \<open>a\<close> is at most \<open>2 ^ E\<close>\<close>
    define d where "d = nat (E - grid a)"
    define D :: int where "D = 2 ^ d"
    define ma where "ma = round_half_even (a / 2 powi grid a)"
    have dE: "E = grid a + int d" using ga by (simp add: d_def)
    have "a < 2 powi (ilog2 a + 1)" using ilog2_bounds[OF assms(1)] by simp
    moreover have "(2::rat) powi (ilog2 a + 1) \<le> 2 powi E"
      using ea by (intro power_int_increasing) simp_all
    ultimately have aE: "a \<le> 2 powi E" by linarith
    have Da: "(of_int D :: rat) * 2 powi grid a = 2 powi E"
    proof -
      have "(2::rat) powi E = 2 powi (int d + grid a)" by (simp add: dE add.commute)
      also have "\<dots> = 2 powi int d * 2 powi grid a" by (rule power_int_add) simp
      finally show ?thesis by (simp add: D_def)
    qed
    have "a / 2 powi grid a \<le> 2 powi E / 2 powi grid a"
      using aE by (simp add: divide_right_mono)
    moreover have "(2::rat) powi E / 2 powi grid a = of_int D"
      unfolding Da[symmetric] by simp
    ultimately have "a / 2 powi grid a \<le> of_int D" by (simp only:)
    then have "\<lceil>a / 2 powi grid a\<rceil> \<le> D" by (simp only: ceiling_le_iff)
    with round_half_even_bounds[of "a / 2 powi grid a"]
    have "ma \<le> D" unfolding ma_def by linarith
    then have "(of_int ma :: rat) \<le> of_int D" by (simp only: of_int_le_iff)
    then have "(of_int ma :: rat) * 2 powi grid a \<le> of_int D * 2 powi grid a"
      by (rule mult_right_mono) simp
    moreover have "round_double a = of_int ma * 2 powi grid a"
      unfolding ma_def by (rule round_double_pos[OF assms(1)])
    ultimately have lo: "round_double a \<le> 2 powi E"
      unfolding Da by (simp only:)
    from lo hi show ?thesis by linarith
  qed
qed

lemma round_double_mono:
  assumes "0 \<le> a" and "a \<le> b"
  shows "round_double a \<le> round_double b"
proof (cases "a = 0")
  case True
  from assms have "0 \<le> b" by linarith
  from round_double_nonneg[OF this] True show ?thesis by (simp add: round_double_def)
next
  case False
  with assms(1) have "0 < a" by simp
  from round_double_mono_pos[OF this assms(2)] show ?thesis .
qed

lemma round_double_0 [simp]: "round_double 0 = 0"
  by (simp add: round_double_def)

lemma round_double_1 [simp]: "round_double 1 = 1"
  by code_simp

lemma round_double_third: "round_double (1 / 3) = 6004799503160661 / 18014398509481984"
  by code_simp


lemma ilog2_pow2 [simp]: "ilog2 (2 powi k) = k"
proof (rule ilog2_unique)
  show "(2::rat) powi k \<le> 2 powi k" by simp
  show "(2::rat) powi k < 2 powi (k + 1)" by (rule power_int_strict_increasing) simp_all
qed

lemma round_double_pow2:
  assumes "- 1022 \<le> k"
  shows "round_double (2 powi k) = 2 powi k"
proof -
  have g: "grid (2 powi k) = k - 52" using assms by (simp add: grid_def)
  have split: "(2::rat) powi k = of_int (2 ^ 52) * 2 powi (k - 52)"
  proof -
    have "(2::rat) powi k = 2 powi (52 + (k - 52))" by simp
    also have "\<dots> = 2 powi 52 * 2 powi (k - 52)" by (rule power_int_add) simp
    finally show ?thesis by simp
  qed
  have "(2::rat) powi k / 2 powi (k - 52) = of_int (2 ^ 52)"
    by (subst split) simp
  then have "round_half_even ((2::rat) powi k / 2 powi (k - 52)) = 2 ^ 52"
    by (simp only: round_half_even_of_int)
  then have "round_double (2 powi k) = of_int (2 ^ 52) * 2 powi (k - 52)"
    by (simp add: round_double_pos g)
  with split show ?thesis by simp
qed

lemma round_double_exact_int:
  assumes "0 < n" and "n < 2 ^ 53"
  shows "round_double (of_int n) = of_int n \<and> ilog2 (of_int n) \<le> 52"
proof -
  define a :: rat where "a = of_int n"
  have a1: "1 \<le> a" using assms(1) by (simp add: a_def)
  then have apos: "0 < a" by linarith
  have "(of_int n :: rat) < of_int (2 ^ 53)" using assms(2) by (simp only: of_int_less_iff)
  then have a53: "a < 2 powi 53" by (simp add: a_def)
  define e where "e = ilog2 a"
  from ilog2_bounds[OF apos] have b: "2 powi e \<le> a" "a < 2 powi (e + 1)"
    by (simp_all add: e_def)
  from b(1) a53 have "(2::rat) powi e < 2 powi 53" by linarith
  then have "e < 53" by (rule power_int_le_imp_less_exp[rotated]) simp_all
  then have e52: "e \<le> 52" by simp
  have e0: "0 \<le> e"
  proof (rule ccontr)
    assume "\<not> 0 \<le> e"
    then have "e + 1 \<le> 0" by simp
    then have "(2::rat) powi (e + 1) \<le> 2 powi 0" by (rule power_int_increasing) simp
    with b(2) a1 show False by simp
  qed
  define k where "k = nat (52 - e)"
  have g: "grid a = - int k" using e0 e52 by (simp add: grid_def e_def k_def)
  have inv: "(2::rat) powi (- int k) * 2 ^ k = 1"
    by (simp add: power_int_minus field_simps)
  have "a / 2 powi (- int k) = of_int (n * 2 ^ k)"
    by (simp add: a_def power_int_minus field_simps)
  then have "round_half_even (a / 2 powi (- int k)) = n * 2 ^ k"
    by (simp only: round_half_even_of_int)
  then have "round_double a = of_int (n * 2 ^ k) * 2 powi (- int k)"
    using apos by (simp add: round_double_pos g)
  also have "\<dots> = of_int n * (2 powi (- int k) * 2 ^ k)" by simp
  also have "\<dots> = of_int n" by (simp only: inv mult_1_right)
  finally show ?thesis using e52 by (simp add: a_def e_def)
qed

lemma float_of_int_exact:
  assumes "0 \<le> n" and "n < 2 ^ 53"
  shows "float_of_int n = Inr (of_int n)"
proof (cases "n = 0")
  case True
  then show ?thesis by (simp add: float_of_int_def)
next
  case False
  with assms(1) have "0 < n" by simp
  from round_double_exact_int[OF this assms(2)] \<open>0 < n\<close> show ?thesis
    by (simp add: float_of_int_def Let_def)
qed

lemma float_of_int_cases:
  "float_of_int n = Inl (OverflowError ''int too large to convert to float'') \<or>
   float_of_int n = Inr (round_double (of_int n))"
  by (simp add: float_of_int_def Let_def)

lemma float_of_int_in_range:
  assumes "0 \<le> n" and "n \<le> 2 ^ 1023"
  shows "float_of_int n = Inr (round_double (of_int n))"
proof -
  define x where "x = round_double (of_int n)"
  define k :: int where "k = 1023"
  have k: "- 1022 \<le> k" "k < 1024" by (simp_all add: k_def)
  have "(of_int n :: rat) \<le> of_int (2 ^ 1023)" using assms(2) by (simp only: of_int_le_iff)
  also have "(of_int (2 ^ 1023) :: rat) = 2 powi k" by (simp add: k_def)
  finally have nk: "(of_int n :: rat) \<le> 2 powi k" .
  have n0: "(0::rat) \<le> of_int n" using assms(1) by simp
  from round_double_mono[OF n0 nk] have le: "x \<le> 2 powi k"
    unfolding x_def round_double_pow2[OF k(1)] .
  have x0: "0 \<le> x" unfolding x_def using n0 by (rule round_double_nonneg)
  have "\<not> (x \<noteq> 0 \<and> 1024 \<le> ilog2 \<bar>x\<bar>)"
  proof
    assume h: "x \<noteq> 0 \<and> 1024 \<le> ilog2 \<bar>x\<bar>"
    with x0 have xpos: "0 < x" by simp
    from ilog2_mono[OF xpos le] have "ilog2 x \<le> k" by (simp only: ilog2_pow2)
    with h xpos k(2) show False by simp
  qed
  then show ?thesis by (simp add: float_of_int_def Let_def x_def)
qed

lemma float_quotient_range:
  assumes "0 \<le> s" and "s \<le> c" and "1 \<le> c"
    and "float_of_int s = Inr x" and "float_of_int c = Inr y"
  shows "float_div_int x c = Inr (round_double (x / y)) \<and>
     0 \<le> round_double (x / y) \<and> round_double (x / y) \<le> 1"
proof -
  from assms(4) float_of_int_cases[of s] have x: "x = round_double (of_int s)" by simp
  from assms(5) float_of_int_cases[of c] have y: "y = round_double (of_int c)" by simp
  have x0: "0 \<le> x" unfolding x using assms(1) by (intro round_double_nonneg) simp
  have xy: "x \<le> y" unfolding x y using assms(1,2) by (intro round_double_mono) simp_all
  have "round_double 1 \<le> y" unfolding y using assms(3) by (intro round_double_mono) simp_all
  then have y1: "1 \<le> y" by simp
  then have ypos: "0 < y" by linarith
  have q0: "0 \<le> x / y" using x0 ypos by simp
  have q1: "x / y \<le> 1" using xy ypos by simp
  from round_double_nonneg[OF q0] have r0: "0 \<le> round_double (x / y)" .
  from round_double_mono[OF q0 q1] have r1: "round_double (x / y) \<le> 1" by simp
  have "float_div_int x c = Inr (round_double (x / y))"
    using assms(5) ypos by (simp add: float_div_int_def)
  with r0 r1 show ?thesis by simp
qed

section \<open>Records and the two filling passes\<close>

lemma update_member:
  "(k', v') \<in> set (AList.update k v d) \<Longrightarrow> (k', v') = (k, v) \<or> (k', v') \<in> set d"
  by (induction d) (auto split: if_splits)

lemma dict_set_member:
  "(k', v') \<in> set (dict_set d k v) \<Longrightarrow> (k', v') = (k, v) \<or> (k', v') \<in> set d"
  unfolding dict_set_def by (rule update_member)

lemma dict_setdefault_cases:
  assumes "dict_setdefault d k v = (d', item)"
  shows "(item = v \<or> (k, item) \<in> set d) \<and> set d' \<subseteq> insert (k, v) (set d)"
  using assms by (auto simp: dict_setdefault_def split: option.splits dest: map_of_SomeD)

lemma list_all_update:
  "list_all P xs \<Longrightarrow> P v \<Longrightarrow> list_all P (xs[i := v])"
  by (induction xs arbitrary: i) (auto split: nat.splits)

lemma add_result_data_fields:
  assumes "add_result_data r res = Inr r'"
  shows "name r' = name r \<and> length (count_direct r') = length (count_direct r) \<and>
     length (count_internal r') = length (count_internal r) \<and>
     superseded r' = superseded r \<and> is_deprecated r' = is_deprecated r \<and>
     line_count r' = line_count r \<and> ours r' = ours r \<and> is_test r' = is_test r"
  using assms
  by (auto simp: add_result_data_def bindE_Inr_iff list_add_at_def Let_def split: if_splits)

lemma add_result_data_nonneg:
  assumes "add_result_data r res = Inr r'" and "0 \<le> res_count res"
    and "list_all (\<lambda>c. 0 \<le> c) (count_direct r @ count_internal r)"
  shows "list_all (\<lambda>c. 0 \<le> c) (count_direct r' @ count_internal r')"
proof -
  from assms(3) have d: "list_all (\<lambda>c. 0 \<le> c) (count_direct r)"
    and i: "list_all (\<lambda>c. 0 \<le> c) (count_internal r)" by simp_all
  have upd: "list_all (\<lambda>c. 0 \<le> c) (xs[j := xs ! j + res_count res])"
    if "list_all (\<lambda>c. 0 \<le> c) xs" "j < length xs" for xs j
  proof -
    from that have "0 \<le> xs ! j" by (simp add: list_all_length)
    with assms(2) have "0 \<le> xs ! j + res_count res" by simp
    with that(1) show ?thesis by (rule list_all_update)
  qed
  from assms(1) d i upd show ?thesis
    by (auto simp: add_result_data_def bindE_Inr_iff list_add_at_def Let_def split: if_splits)
qed

lemma add_result_data_unknown:
  "res_version res \<notin> set supported_versions \<Longrightarrow>
     add_result_data r res = Inl (RuntimeError (''Unknown version '' @ res_version res))"
  by (simp add: add_result_data_def index_for_version_unknown)

lemma index_for_version_known:
  "version \<in> set supported_versions \<Longrightarrow> \<exists>i<8. index_for_version version = Inr i"
  by (auto simp: supported_versions_def index_for_version_def)

lemma add_result_data_ok:
  assumes "res_version res \<in> set supported_versions"
    and "length (count_direct r) = 8" and "length (count_internal r) = 8"
  shows "\<exists>r'. add_result_data r res = Inr r'"
proof -
  from index_for_version_known[OF assms(1)] obtain i where
    "i < 8" "index_for_version (res_version res) = Inr i" by blast
  with assms(2,3) show ?thesis
    by (simp add: add_result_data_def list_add_at_def Let_def)
qed

lemma seed_known_total: "\<exists>merged'. seed_known merged algs = Inr merged'"
  by (induction algs arbitrary: merged) (simp_all add: AlgRecord_init_def)

lemma seed_known_inv:
  assumes "seed_known merged algs = Inr merged'"
    and "\<And>k r. (k, r) \<in> set merged \<Longrightarrow> P k r"
    and "\<And>alg r. AlgRecord_init (FileData alg) = Inr r \<Longrightarrow> P (alg_name alg) r"
    and "(k, r) \<in> set merged'"
  shows "P k r"
  using assms(1,2,4)
proof (induction algs arbitrary: merged)
  case Nil
  then show ?case by simp
next
  case (Cons alg algs)
  from Cons.prems(1) obtain r0 where
    r0: "AlgRecord_init (FileData alg) = Inr r0"
    and rest: "seed_known (dict_set merged (alg_name alg) r0) algs = Inr merged'"
    by (auto simp: bindE_Inr_iff)
  have "P k' r'" if "(k', r') \<in> set (dict_set merged (alg_name alg) r0)" for k' r'
    using dict_set_member[OF that] assms(3)[OF r0] Cons.prems(2) by auto
  from Cons.IH[OF rest this Cons.prems(3)] show ?case .
qed

lemma add_results_inv:
  assumes "add_results merged results = Inr merged'"
    and "\<And>k r. (k, r) \<in> set merged \<Longrightarrow> P k r"
    and "\<And>s r. AlgRecord_init (StrData s) = Inr r \<Longrightarrow> P s r"
    and "\<And>r res r'. P (res_name res) r \<Longrightarrow> res \<in> set results \<Longrightarrow>
           add_result_data r res = Inr r' \<Longrightarrow> P (res_name res) r'"
    and "(k, r) \<in> set merged'"
  shows "P k r"
  using assms(1,2,4,5)
proof (induction results arbitrary: merged)
  case Nil
  then show ?case by simp
next
  case (Cons res results)
  from Cons.prems(1) obtain fresh where
    fresh: "AlgRecord_init (StrData (res_name res)) = Inr fresh"
    and body: "(case dict_setdefault merged (res_name res) fresh of
         (m1, item) \<Rightarrow> bindE (add_result_data item res) (\<lambda>item'.
             add_results (dict_set m1 (res_name res) item') results)) = Inr merged'"
    by (auto simp: bindE_Inr_iff)
  obtain m1 item where sd: "dict_setdefault merged (res_name res) fresh = (m1, item)"
    by (cases "dict_setdefault merged (res_name res) fresh")
  from body sd obtain item' where
    ard: "add_result_data item res = Inr item'"
    and rest: "add_results (dict_set m1 (res_name res) item') results = Inr merged'"
    by (auto simp: bindE_Inr_iff)
  from dict_setdefault_cases[OF sd] Cons.prems(2) assms(3)[OF fresh]
  have item: "P (res_name res) item" and m1: "\<And>k r. (k, r) \<in> set m1 \<Longrightarrow> P k r"
    by auto
  from Cons.prems(3)[OF item _ ard] have item': "P (res_name res) item'" by simp
  have inv: "P k' r'" if "(k', r') \<in> set (dict_set m1 (res_name res) item')" for k' r'
    using dict_set_member[OF that] item' m1 by auto
  from Cons.IH[OF rest inv _ Cons.prems(4)] Cons.prems(3) show ?case by simp
qed

section \<open>The annotating passes and the removals\<close>

lemma try_test_lines_fields:
  assumes "try_test_lines e r ts sl c = (c', r')"
  shows "name r' = name r \<and> count_direct r' = count_direct r \<and>
     count_internal r' = count_internal r \<and> superseded r' = superseded r \<and>
     is_deprecated r' = is_deprecated r \<and> line_count r' = line_count r \<and>
     ours r' = ours r \<and> is_test r' = is_test r"
  using assms
  by (auto simp: try_test_lines_def Let_def split: sum.splits if_splits)

lemma line_count_body_fields:
  assumes "line_count_body e r = Inr r'"
  shows "name r' = name r \<and> count_direct r' = count_direct r \<and>
     count_internal r' = count_internal r \<and> superseded r' = superseded r \<and>
     is_deprecated r' = is_deprecated r \<and> line_count r' \<noteq> None \<and>
     ours r' = ours r \<and> is_test r' = is_test r"
proof -
  have step: "name r' = name r \<and> count_direct r' = count_direct r \<and>
     count_internal r' = count_internal r \<and> superseded r' = superseded r \<and>
     is_deprecated r' = is_deprecated r \<and> line_count r' \<noteq> None \<and>
     ours r' = ours r \<and> is_test r' = is_test r"
    if "(case try_test_lines e r ts sl c of
           (count, record) \<Rightarrow> Inr (record\<lparr>line_count := Some (str_nat count)\<rparr>)) = Inr r'"
    for ts sl c
  proof -
    obtain c1 r1 where t: "try_test_lines e r ts sl c = (c1, r1)"
      by (cases "try_test_lines e r ts sl c")
    with that have "r' = r1\<lparr>line_count := Some (str_nat c1)\<rparr>" by simp
    with try_test_lines_fields[OF t] show ?thesis by simp
  qed
  from assms show ?thesis
    unfolding line_count_body_def
    by (auto simp: bindE_Inr_iff split: if_splits option.splits dest: step)
qed

lemma add_line_count_info_fields:
  assumes "add_line_count_info e r = Inr r'"
  shows "name r' = name r \<and> count_direct r' = count_direct r \<and>
     count_internal r' = count_internal r \<and> superseded r' = superseded r \<and>
     is_deprecated r' = is_deprecated r \<and> line_count r' \<noteq> None \<and>
     ours r' = ours r \<and> is_test r' = is_test r"
proof (cases "line_count_body e r")
  case (Inl err)
  with assms show ?thesis
    by (cases err) (auto simp: add_line_count_info_def)
next
  case (Inr r1)
  with assms have "r' = r1" by (simp add: add_line_count_info_def)
  with line_count_body_fields[OF Inr] show ?thesis by simp
qed

lemma set_superseded_result:
  assumes "set_superseded merged r = Inr r'"
  shows "\<exists>next_name. next_version_name (name r) = Inr next_name \<and>
     r' = r\<lparr>superseded := Some (if dict_contains merged next_name
                                   then ''superseded'' else ''          -'')\<rparr>"
  using assms by (auto simp: set_superseded_def bindE_Inr_iff Let_def)

lemma next_version_name_nonempty: "next_version_name nm = Inr nx \<Longrightarrow> nm \<noteq> []"
  by (auto simp: next_version_name_def bindE_Inr_iff last_char_def py_int_def)

text \<open>Where a record of the annotated dictionary comes from.\<close>

lemma merge_annotated_trace:
  assumes "merge_annotated e = Inr merged" and "(k, r) \<in> set merged"
  shows "\<exists>m1 m2 r2 next_name r3 b.
     seed_known [] (declared_algorithms e) = Inr m1 \<and>
     add_results m1 (get_algorithm_results e) = Inr m2 \<and>
     map fst merged = map fst m2 \<and>
     (k, r2) \<in> set m2 \<and>
     next_version_name (name r2) = Inr next_name \<and>
     add_line_count_info e
       (r2\<lparr>superseded := Some (if dict_contains m2 next_name
                                  then ''superseded'' else ''          -'')\<rparr>) = Inr r3 \<and>
     r = r3\<lparr>is_deprecated := Some b\<rparr>"
proof -
  from assms(1) obtain m1 m2 m3 m4 where
    p1: "seed_known [] (declared_algorithms e) = Inr m1"
    and p2: "add_results m1 (get_algorithm_results e) = Inr m2"
    and p3: "init_superseded m2 = Inr m3"
    and p4: "add_line_counts e m3 = Inr m4"
    and p5: "add_deprecation e m4 = Inr merged"
    by (auto simp: merge_annotated_def bindE_Inr_iff)
  from p5 obtain contents where
    dep: "map_values (\<lambda>item. bindE (is_deprecated_fn e item (py_split newline contents))
                     (\<lambda>b. Inr (item\<lparr>is_deprecated := Some b\<rparr>))) m4 = Inr merged"
    by (auto simp: add_deprecation_def bindE_Inr_iff Let_def)
  from map_values_member[OF dep assms(2)] obtain r3 b where
    r3: "(k, r3) \<in> set m4" and r: "r = r3\<lparr>is_deprecated := Some b\<rparr>"
    by (auto simp: bindE_Inr_iff)
  from p4 have lc: "map_values (add_line_count_info e) m3 = Inr m4"
    by (simp add: add_line_counts_def)
  from map_values_member[OF lc r3] obtain r2' where
    r2': "(k, r2') \<in> set m3" and a: "add_line_count_info e r2' = Inr r3"
    by blast
  from p3 have su: "map_values (set_superseded m2) m2 = Inr m3"
    by (simp add: init_superseded_def)
  from map_values_member[OF su r2'] obtain r2 where
    r2: "(k, r2) \<in> set m2" and s: "set_superseded m2 r2 = Inr r2'"
    by blast
  from set_superseded_result[OF s] obtain next_name where
    nn: "next_version_name (name r2) = Inr next_name"
    and r2'_eq: "r2' = r2\<lparr>superseded := Some (if dict_contains m2 next_name
                                   then ''superseded'' else ''          -'')\<rparr>"
    by blast
  have keys: "map fst merged = map fst m2"
    using map_values_keys[OF dep] map_values_keys[OF lc] map_values_keys[OF su] by simp
  from p1 p2 keys r2 nn a r r2'_eq show ?thesis by blast
qed

lemma rename_result:
  assumes "bindE (dict_get merged src) (\<lambda>tmp.
       bindE (dict_del merged src) (\<lambda>m. Inr (dict_set m tgt (tmp\<lparr>name := tgt\<rparr>)))) = Inr merged'"
  shows "\<exists>tmp. map_of merged src = Some tmp \<and>
     merged' = dict_set (AList.delete src merged) tgt (tmp\<lparr>name := tgt\<rparr>)"
proof -
  from assms obtain tmp m where
    g: "dict_get merged src = Inr tmp" and d: "dict_del merged src = Inr m"
    and r: "merged' = dict_set m tgt (tmp\<lparr>name := tgt\<rparr>)"
    unfolding bindE_Inr_iff by auto
  from g have "map_of merged src = Some tmp"
    by (simp add: dict_get_def split: option.splits)
  moreover from d have "m = AList.delete src merged"
    by (simp add: dict_del_def split: if_splits)
  ultimately show ?thesis using r by blast
qed

lemma rename_member:
  assumes "bindE (dict_get merged src) (\<lambda>tmp.
       bindE (dict_del merged src) (\<lambda>m. Inr (dict_set m tgt (tmp\<lparr>name := tgt\<rparr>)))) = Inr merged'"
    and "(k, r) \<in> set merged'"
  shows "((k, r) \<in> set merged \<and> k \<noteq> src) \<or>
     (k = tgt \<and> (\<exists>tmp. (src, tmp) \<in> set merged \<and> r = tmp\<lparr>name := tgt\<rparr>))"
proof -
  from rename_result[OF assms(1)] obtain tmp where
    tmp: "map_of merged src = Some tmp"
    and m': "merged' = dict_set (AList.delete src merged) tgt (tmp\<lparr>name := tgt\<rparr>)"
    by blast
  from assms(2) m'
  have "(k, r) \<in> set (dict_set (AList.delete src merged) tgt (tmp\<lparr>name := tgt\<rparr>))"
    by simp
  from dict_set_member[OF this]
  have "(k, r) = (tgt, tmp\<lparr>name := tgt\<rparr>) \<or> (k, r) \<in> set (AList.delete src merged)" .
  then show ?thesis
  proof
    assume "(k, r) = (tgt, tmp\<lparr>name := tgt\<rparr>)"
    with map_of_SomeD[OF tmp] show ?thesis by blast
  next
    assume "(k, r) \<in> set (AList.delete src merged)"
    then have "(k, r) \<in> set merged \<and> k \<noteq> src"
      unfolding AList.delete_eq by auto
    then show ?thesis by blast
  qed
qed

lemma special_cases_unfold:
  "special_cases merged = bindE (dict_get merged ''Q1D.v2'') (\<lambda>tmp.
       bindE (dict_del merged ''Q1D.v2'') (\<lambda>m. Inr (dict_set m ''Q1D2.v1'' (tmp\<lparr>name := ''Q1D2.v1''\<rparr>))))"
  unfolding special_cases_def Let_def ..

lemma special_cases_member:
  assumes "special_cases merged = Inr merged'" and "(k, r) \<in> set merged'"
  shows "((k, r) \<in> set merged \<and> k \<noteq> ''Q1D.v2'') \<or>
     (k = ''Q1D2.v1'' \<and> (\<exists>tmp. (''Q1D.v2'', tmp) \<in> set merged \<and> r = tmp\<lparr>name := ''Q1D2.v1''\<rparr>))"
  using assms(1)[unfolded special_cases_unfold] assms(2) by (rule rename_member)

lemma merge_filtered_subset:
  assumes "merge_filtered a e = Inr merged" 
  shows "\<exists>annot blacklist. merge_annotated e = Inr annot \<and> load_blacklist e = Inr blacklist \<and>
     merged = filter (\<lambda>p. fst p \<notin> set (to_delete a (filter (\<lambda>p. fst p \<notin> set blacklist) annot)))
                (filter (\<lambda>p. fst p \<notin> set blacklist) annot)"
proof -
  from assms obtain annot blacklist m1 where
    a: "merge_annotated e = Inr annot" and b: "load_blacklist e = Inr blacklist"
    and d1: "del_all annot blacklist = Inr m1" and d2: "remove_unwanted a m1 = Inr merged"
    by (auto simp: merge_filtered_def bindE_Inr_iff)
  from del_all_filter[OF d1] have m1: "m1 = filter (\<lambda>p. fst p \<notin> set blacklist) annot" .
  from d2 have "del_all m1 (to_delete a m1) = Inr merged" by (simp add: remove_unwanted_def)
  from del_all_filter[OF this] m1 a b show ?thesis by blast
qed

lemma phase_A_name:
  assumes "seed_known [] (declared_algorithms e) = Inr m1"
    and "add_results m1 (get_algorithm_results e) = Inr m2"
    and "(k, r) \<in> set m2"
  shows "name r = k"
proof -
  have inv1: "name r' = k'" if "(k', r') \<in> set m1" for k' r'
    using assms(1) _ _ that
  proof (rule seed_known_inv)
    show "\<And>k r. (k, r) \<in> set [] \<Longrightarrow> name r = k" by simp
    show "\<And>alg r. AlgRecord_init (FileData alg) = Inr r \<Longrightarrow> name r = alg_name alg"
      by (auto simp: AlgRecord_init_def)
  qed
  show ?thesis
    using assms(2) _ _ _ assms(3)
  proof (rule add_results_inv)
    show "\<And>k r. (k, r) \<in> set m1 \<Longrightarrow> name r = k" by (rule inv1)
    show "\<And>s r. AlgRecord_init (StrData s) = Inr r \<Longrightarrow> name r = s"
      by (auto simp: AlgRecord_init_def)
    show "\<And>r res r'. name r = res_name res \<Longrightarrow> res \<in> set (get_algorithm_results e) \<Longrightarrow>
           add_result_data r res = Inr r' \<Longrightarrow> name r' = res_name res"
      using add_result_data_fields by simp
  qed
qed

lemma phase_A_lengths:
  assumes "seed_known [] algs = Inr m1"
    and "(k, r) \<in> set m1"
  shows "length (count_direct r) = 8 \<and> length (count_internal r) = 8"
  using assms(1) _ _ assms(2)
proof (rule seed_known_inv)
  show "\<And>k r. (k, r) \<in> set [] \<Longrightarrow> length (count_direct r) = 8 \<and> length (count_internal r) = 8"
    by simp
  show "\<And>alg r. AlgRecord_init (FileData alg) = Inr r \<Longrightarrow>
      length (count_direct r) = 8 \<and> length (count_internal r) = 8"
    by (auto simp: AlgRecord_init_def)
qed

lemma phase_A_nonneg:
  assumes "seed_known [] (declared_algorithms e) = Inr m1"
    and "add_results m1 (get_algorithm_results e) = Inr m2"
    and "list_all (\<lambda>res. 0 \<le> res_count res) (get_algorithm_results e)"
    and "(k, r) \<in> set m2"
  shows "list_all (\<lambda>c. 0 \<le> c) (count_direct r @ count_internal r)"
proof -
  have inv1: "list_all (\<lambda>c. 0 \<le> c) (count_direct r' @ count_internal r')"
    if "(k', r') \<in> set m1" for k' r'
    using assms(1) _ _ that
  proof (rule seed_known_inv)
    show "\<And>k r. (k, r) \<in> set [] \<Longrightarrow> list_all (\<lambda>c. 0 \<le> c) (count_direct r @ count_internal r)"
      by simp
    show "\<And>alg r. AlgRecord_init (FileData alg) = Inr r \<Longrightarrow>
        list_all (\<lambda>c. 0 \<le> c) (count_direct r @ count_internal r)"
      by (auto simp: AlgRecord_init_def)
  qed
  show ?thesis
    using assms(2) _ _ _ assms(4)
  proof (rule add_results_inv)
    show "\<And>k r. (k, r) \<in> set m1 \<Longrightarrow> list_all (\<lambda>c. 0 \<le> c) (count_direct r @ count_internal r)"
      by (rule inv1)
    show "\<And>s r. AlgRecord_init (StrData s) = Inr r \<Longrightarrow>
        list_all (\<lambda>c. 0 \<le> c) (count_direct r @ count_internal r)"
      by (auto simp: AlgRecord_init_def)
    show "\<And>r res r'. list_all (\<lambda>c. 0 \<le> c) (count_direct r @ count_internal r) \<Longrightarrow>
           res \<in> set (get_algorithm_results e) \<Longrightarrow>
           add_result_data r res = Inr r' \<Longrightarrow>
           list_all (\<lambda>c. 0 \<le> c) (count_direct r' @ count_internal r')"
    proof -
      fix r res r'
      assume nn: "list_all (\<lambda>c. 0 \<le> c) (count_direct r @ count_internal r)"
        and mem: "res \<in> set (get_algorithm_results e)"
        and ard: "add_result_data r res = Inr r'"
      from assms(3) mem have "0 \<le> res_count res" by (simp add: list_all_iff)
      from add_result_data_nonneg[OF ard this nn]
      show "list_all (\<lambda>c. 0 \<le> c) (count_direct r' @ count_internal r')" .
    qed
  qed
qed

text \<open>What every record of the annotated dictionary satisfies.\<close>

lemma merge_annotated_record:
  assumes "merge_annotated e = Inr merged" and "(k, r) \<in> set merged"
  shows "name r = k \<and> k \<noteq> [] \<and> superseded r \<noteq> None \<and> is_deprecated r \<noteq> None \<and>
     line_count r \<noteq> None"
proof -
  from merge_annotated_trace[OF assms] obtain m1 m2 r2 next_name r3 b where
    p1: "seed_known [] (declared_algorithms e) = Inr m1"
    and p2: "add_results m1 (get_algorithm_results e) = Inr m2"
    and r2: "(k, r2) \<in> set m2"
    and nn: "next_version_name (name r2) = Inr next_name"
    and lc: "add_line_count_info e
       (r2\<lparr>superseded := Some (if dict_contains m2 next_name
                                  then ''superseded'' else ''          -'')\<rparr>) = Inr r3"
    and r: "r = r3\<lparr>is_deprecated := Some b\<rparr>"
    by blast
  from phase_A_name[OF p1 p2 r2] have n2: "name r2 = k" .
  from next_version_name_nonempty[OF nn] n2 have ne: "k \<noteq> []" by simp
  from add_line_count_info_fields[OF lc] n2 r ne show ?thesis by simp
qed

lemma merge_annotated_nonneg:
  assumes "merge_annotated e = Inr merged" and "(k, r) \<in> set merged"
    and "list_all (\<lambda>res. 0 \<le> res_count res) (get_algorithm_results e)"
  shows "list_all (\<lambda>c. 0 \<le> c) (count_direct r @ count_internal r)"
proof -
  from merge_annotated_trace[OF assms(1,2)] obtain m1 m2 r2 next_name r3 b where
    p1: "seed_known [] (declared_algorithms e) = Inr m1"
    and p2: "add_results m1 (get_algorithm_results e) = Inr m2"
    and r2: "(k, r2) \<in> set m2"
    and lc: "add_line_count_info e
       (r2\<lparr>superseded := Some (if dict_contains m2 next_name
                                  then ''superseded'' else ''          -'')\<rparr>) = Inr r3"
    and r: "r = r3\<lparr>is_deprecated := Some b\<rparr>"
    by blast
  from phase_A_nonneg[OF p1 p2 assms(3) r2]
  have "list_all (\<lambda>c. 0 \<le> c) (count_direct r2 @ count_internal r2)" .
  with add_line_count_info_fields[OF lc] r show ?thesis by simp
qed

text \<open>Where a record of the returned dictionary comes from.\<close>

lemma merge_member:
  assumes "merge a e = Inr merged" and "(k, r) \<in> set merged"
  shows "\<exists>annot blacklist r0. merge_annotated e = Inr annot \<and> load_blacklist e = Inr blacklist \<and>
     (((k, r0) \<in> set annot \<and> r = r0 \<and> k \<notin> set blacklist \<and> k \<noteq> ''Q1D.v2'') \<or>
      (k = ''Q1D2.v1'' \<and> (''Q1D.v2'', r0) \<in> set annot \<and> r = r0\<lparr>name := ''Q1D2.v1''\<rparr>))"
proof -
  from assms(1) obtain mf where
    mf: "merge_filtered a e = Inr mf" and sc: "special_cases mf = Inr merged"
    by (auto simp: merge_def bindE_Inr_iff)
  from merge_filtered_subset[OF mf] obtain annot blacklist where
    an: "merge_annotated e = Inr annot" and bl: "load_blacklist e = Inr blacklist"
    and mf_eq: "mf = filter (\<lambda>p. fst p \<notin> set (to_delete a (filter (\<lambda>p. fst p \<notin> set blacklist) annot)))
                (filter (\<lambda>p. fst p \<notin> set blacklist) annot)"
    by blast
  have sub: "(k', r') \<in> set annot \<and> k' \<notin> set blacklist" if "(k', r') \<in> set mf" for k' r'
    using that unfolding mf_eq by auto
  from special_cases_member[OF sc assms(2)]
  show ?thesis
  proof
    assume "(k, r) \<in> set mf \<and> k \<noteq> ''Q1D.v2''"
    with sub[of k r] an bl show ?thesis by blast
  next
    assume "k = ''Q1D2.v1'' \<and> (\<exists>tmp. (''Q1D.v2'', tmp) \<in> set mf \<and> r = tmp\<lparr>name := ''Q1D2.v1''\<rparr>)"
    then obtain tmp where k: "k = ''Q1D2.v1''" and t: "(''Q1D.v2'', tmp) \<in> set mf"
      and r: "r = tmp\<lparr>name := ''Q1D2.v1''\<rparr>" by blast
    from sub[OF t] have "(''Q1D.v2'', tmp) \<in> set annot" by simp
    with k r an bl show ?thesis by blast
  qed
qed

section \<open>Supersession\<close>

lemma merge_annotated_mark:
  assumes "merge_annotated e = Inr merged" and "(k, r) \<in> set merged"
  shows "\<exists>next_name. next_version_name k = Inr next_name \<and>
     superseded r = Some (if dict_contains merged next_name
                          then ''superseded'' else ''          -'')"
proof -
  from merge_annotated_trace[OF assms] obtain m1 m2 r2 next_name r3 b where
    p1: "seed_known [] (declared_algorithms e) = Inr m1"
    and p2: "add_results m1 (get_algorithm_results e) = Inr m2"
    and keys: "map fst merged = map fst m2"
    and r2: "(k, r2) \<in> set m2"
    and nn: "next_version_name (name r2) = Inr next_name"
    and lc: "add_line_count_info e
       (r2\<lparr>superseded := Some (if dict_contains m2 next_name
                                  then ''superseded'' else ''          -'')\<rparr>) = Inr r3"
    and r: "r = r3\<lparr>is_deprecated := Some b\<rparr>"
    by blast
  from phase_A_name[OF p1 p2 r2] nn have nk: "next_version_name k = Inr next_name" by simp
  from keys have dc: "dict_contains merged next_name = dict_contains m2 next_name"
    by (simp add: dict_contains_def dict_keys_def)
  from add_line_count_info_fields[OF lc] r
  have "superseded r = Some (if dict_contains m2 next_name
                                  then ''superseded'' else ''          -'')" by simp
  with nk dc show ?thesis by simp
qed

lemma digit_char_is_digit: "d < 10 \<Longrightarrow> is_digit (digit_char d) \<and> digit_val (digit_char d) = d"
  by (simp add: is_digit_def digit_val_def digit_char_def)

lemma py_int_digit: "d < 10 \<Longrightarrow> py_int [digit_char d] = Inr d"
  by (simp add: py_int_def digit_char_is_digit)

lemma str_nat_snoc:
  "str_nat n = (if n < 10 then [] else str_nat (n div 10)) @ [digit_char (n mod 10)]"
  by (subst str_nat.simps) simp

lemma next_version_name_snoc:
  assumes "d < 10"
  shows "next_version_name (pre @ [digit_char d]) = Inr (pre @ str_nat (Suc d))"
  using assms by (simp add: next_version_name_def last_char_def py_int_digit)

text \<open>
  The successor that the supersession pass computes is the next version exactly when the
  version number has one digit or does not end in 9; for a longer number ending in 9 it
  is the number without its last digit, followed by \<open>10\<close>.
\<close>

lemma next_version_name_correct:
  assumes "n < 10 \<or> n mod 10 \<noteq> 9"
  shows "next_version_name (x @ ''.v'' @ str_nat n) = Inr (x @ ''.v'' @ str_nat (Suc n))"
proof -
  define pre where "pre = x @ ''.v'' @ (if n < 10 then [] else str_nat (n div 10))"
  have split: "x @ ''.v'' @ str_nat n = pre @ [digit_char (n mod 10)]"
    by (subst str_nat_snoc) (simp add: pre_def)
  have "n mod 10 < 10" by simp
  from next_version_name_snoc[OF this, of pre] split
  have nv: "next_version_name (x @ ''.v'' @ str_nat n) = Inr (pre @ str_nat (Suc (n mod 10)))"
    by simp
  have "pre @ str_nat (Suc (n mod 10)) = x @ ''.v'' @ str_nat (Suc n)"
  proof (cases "n < 10")
    case True
    then show ?thesis by (simp add: pre_def)
  next
    case False
    with assms have ne: "n mod 10 \<noteq> 9" by simp
    then have lt: "Suc (n mod 10) < 10" by arith
    have d: "Suc n div 10 = n div 10" using ne by arith
    have m: "Suc n mod 10 = Suc (n mod 10)" using ne by arith
    have "str_nat (Suc n) = str_nat (n div 10) @ [digit_char (Suc (n mod 10))]"
      using False d m by (subst str_nat_snoc) simp
    moreover have "str_nat (Suc (n mod 10)) = [digit_char (Suc (n mod 10))]"
      using lt by (subst str_nat.simps) simp
    ultimately show ?thesis using False by (simp add: pre_def)
  qed
  with nv show ?thesis by simp
qed

lemma next_version_name_ends_in_9:
  assumes "10 \<le> n" and "n mod 10 = 9"
  shows "next_version_name (x @ ''.v'' @ str_nat n) = Inr (x @ ''.v'' @ str_nat (n div 10) @ ''10'')"
proof -
  have split: "x @ ''.v'' @ str_nat n = (x @ ''.v'' @ str_nat (n div 10)) @ [digit_char 9]"
    using assms by (subst str_nat_snoc) simp
  have "str_nat (Suc 9) = ''10''" by code_simp
  with next_version_name_snoc[of 9 "x @ ''.v'' @ str_nat (n div 10)"] split
  show ?thesis by simp
qed

lemma superseded_iff_successor_present:
  assumes "merge_annotated e = Inr merged" and "(x @ ''.v'' @ str_nat n, r) \<in> set merged"
    and "n < 10 \<or> n mod 10 \<noteq> 9"
  shows "superseded r = Some ''superseded'' \<longleftrightarrow>
     dict_contains merged (x @ ''.v'' @ str_nat (Suc n))"
proof -
  from merge_annotated_mark[OF assms(1,2)] next_version_name_correct[OF assms(3), of x]
  have "superseded r = Some (if dict_contains merged (x @ ''.v'' @ str_nat (Suc n))
                          then ''superseded'' else ''          -'')" by simp
  then show ?thesis by simp
qed

text \<open>
  Claim C1. A record whose identity is \<open>X.vN\<close> should be marked superseded exactly when
  \<open>X.v(N+1)\<close> is in the merged set, for every \<open>N\<close>. The pass reads the version from the
  last character of the name only: for \<open>X.v19\<close> it looks for \<open>X.v110\<close>, so in a run
  that holds both \<open>X.v19\<close> and \<open>X.v20\<close> the record of \<open>X.v19\<close> is left unmarked.
\<close>

theorem two_digit_successor_missed:
  "next_version_name ''X.v19'' = Inr ''X.v110'' \<and>
   marks_of (merge default_args two_digit_env) =
     Inr [(''X.v19'', Some ''          -''), (''X.v20'', Some ''          -''),
          (''Q1D2.v1'', Some ''          -'')]"
proof -
  have "next_version_name ''X.v19'' = Inr ''X.v110''"
    by code_simp
  moreover have "marks_of (merge default_args two_digit_env) =
     Inr [(''X.v19'', Some ''          -''), (''X.v20'', Some ''          -''),
          (''Q1D2.v1'', Some ''          -'')]"
    by code_simp
  ultimately show ?thesis by simp
qed

section \<open>Unsupported versions\<close>

lemma add_results_unknown:
  assumes "list_all (\<lambda>p. length (count_direct (snd p)) = 8 \<and>
                       length (count_internal (snd p)) = 8) merged"
    and "res \<in> set results" and "res_version res \<notin> set supported_versions"
  shows "\<exists>bad. bad \<in> set results \<and> res_version bad \<notin> set supported_versions \<and>
     add_results merged results = Inl (RuntimeError (''Unknown version '' @ res_version bad))"
  using assms
proof (induction results arbitrary: merged)
  case Nil
  then show ?case by simp
next
  case (Cons x results)
  obtain fresh where fresh: "AlgRecord_init (StrData (res_name x)) = Inr fresh"
    and fl: "length (count_direct fresh) = 8 \<and> length (count_internal fresh) = 8"
    using AlgRecord_init_Str[of "res_name x"] by blast
  obtain m1 item where sd: "dict_setdefault merged (res_name x) fresh = (m1, item)"
    by (cases "dict_setdefault merged (res_name x) fresh")
  have unfold: "add_results merged (x # results) =
      bindE (add_result_data item x) (\<lambda>item'.
        add_results (dict_set m1 (res_name x) item') results)"
    using fresh sd by simp
  show ?case
  proof (cases "res_version x \<in> set supported_versions")
    case False
    from add_result_data_unknown[OF False] unfold
    have "add_results merged (x # results) =
        Inl (RuntimeError (''Unknown version '' @ res_version x))" by simp
    with False show ?thesis by auto
  next
    case True
    from Cons.prems(1) have old: "\<And>k r. (k, r) \<in> set merged \<Longrightarrow>
        length (count_direct r) = 8 \<and> length (count_internal r) = 8"
      by (auto simp: list_all_iff)
    from dict_setdefault_cases[OF sd] old fl
    have il: "length (count_direct item) = 8 \<and> length (count_internal item) = 8"
      and m1: "\<And>k r. (k, r) \<in> set m1 \<Longrightarrow>
             length (count_direct r) = 8 \<and> length (count_internal r) = 8"
      by auto
    from add_result_data_ok[OF True] il obtain item' where
      ard: "add_result_data item x = Inr item'" by blast
    from add_result_data_fields[OF ard] il
    have il': "length (count_direct item') = 8 \<and> length (count_internal item') = 8" by simp
    have "length (count_direct r') = 8 \<and> length (count_internal r') = 8"
      if "(k', r') \<in> set (dict_set m1 (res_name x) item')" for k' r'
      using dict_set_member[OF that] il' m1 by auto
    then have inv: "list_all (\<lambda>p. length (count_direct (snd p)) = 8 \<and>
                       length (count_internal (snd p)) = 8) (dict_set m1 (res_name x) item')"
      by (auto simp: list_all_iff)
    from Cons.prems(2,3) True have "res \<in> set results" by auto
    from Cons.IH[OF inv this Cons.prems(3)] obtain bad where
      "bad \<in> set results" "res_version bad \<notin> set supported_versions"
      "add_results (dict_set m1 (res_name x) item') results =
         Inl (RuntimeError (''Unknown version '' @ res_version bad))"
      by blast
    with unfold ard show ?thesis by auto
  qed
qed

text \<open>
  Claim C3. Folding an observation whose version string is not one of the eight supported
  strings raises \<open>RuntimeError\<close>, and a run whose results hold such an observation
  returns no mapping: \<open>merge\<close> ends with the \<open>RuntimeError\<close> of an unsupported
  version. On the supported strings, in their order, \<open>index_for_version\<close> returns the
  slots 0 to 7, one each.
\<close>

theorem unknown_version_aborts_merge:
  "(res \<in> set (get_algorithm_results e) \<and> res_version res \<notin> set supported_versions \<longrightarrow>
      add_result_data r res = Inl (RuntimeError (''Unknown version '' @ res_version res)) \<and>
      (\<exists>bad. bad \<in> set (get_algorithm_results e) \<and>
         res_version bad \<notin> set supported_versions \<and>
         merge a e = Inl (RuntimeError (''Unknown version '' @ res_version bad)))) \<and>
   map index_for_version supported_versions = map Inr [0, 1, 2, 3, 4, 5, 6, 7]"
proof -
  have abort: "\<exists>bad. bad \<in> set (get_algorithm_results e) \<and>
         res_version bad \<notin> set supported_versions \<and>
         merge a e = Inl (RuntimeError (''Unknown version '' @ res_version bad))"
    if mem: "res \<in> set (get_algorithm_results e)"
      and unk: "res_version res \<notin> set supported_versions"
  proof -
    from seed_known_total obtain m1 where
      p1: "seed_known [] (declared_algorithms e) = Inr m1" by blast
    have "list_all (\<lambda>p. length (count_direct (snd p)) = 8 \<and>
                       length (count_internal (snd p)) = 8) m1"
      using phase_A_lengths[OF p1] by (auto simp: list_all_iff)
    from add_results_unknown[OF this mem unk] obtain bad where
      b: "bad \<in> set (get_algorithm_results e)" "res_version bad \<notin> set supported_versions"
      and f: "add_results m1 (get_algorithm_results e) =
         Inl (RuntimeError (''Unknown version '' @ res_version bad))"
      by blast
    from p1 f have "merge a e = Inl (RuntimeError (''Unknown version '' @ res_version bad))"
      by (simp add: merge_def merge_filtered_def merge_annotated_def)
    with b show ?thesis by blast
  qed
  from abort add_result_data_unknown index_for_version_supported show ?thesis by blast
qed

theorem unknown_version_aborts_merge_witness:
  "AlgResultRecord_init (''Q1D.v2'', 4, True, ''4.0'') \<in> set (get_algorithm_results unknown_version_env) \<and>
   res_version (AlgResultRecord_init (''Q1D.v2'', 4, True, ''4.0'')) \<notin> set supported_versions \<and>
   add_result_data (record_with ''Q1D.v2'' [0, 0, 0, 0, 0, 0, 0, 0] [0, 0, 0, 0, 0, 0, 0, 0])
     (AlgResultRecord_init (''Q1D.v2'', 4, True, ''4.0''))
     = Inl (RuntimeError ''Unknown version 4.0'') \<and>
   merge default_args unknown_version_env = Inl (RuntimeError ''Unknown version 4.0'')"
proof -
  have mem: "AlgResultRecord_init (''Q1D.v2'', 4, True, ''4.0'')
      \<in> set (get_algorithm_results unknown_version_env)"
    by (simp add: get_algorithm_results_def unknown_version_env_def run_env_def)
  have unk: "res_version (AlgResultRecord_init (''Q1D.v2'', 4, True, ''4.0''))
      \<notin> set supported_versions"
    by (simp add: AlgResultRecord_init_def supported_versions_def)
  have v: "res_version (AlgResultRecord_init (''Q1D.v2'', 4, True, ''4.0'')) = ''4.0''"
    by (simp add: AlgResultRecord_init_def)
  have run: "merge default_args unknown_version_env = Inl (RuntimeError ''Unknown version 4.0'')"
    by code_simp
  from unknown_version_aborts_merge
         [of "AlgResultRecord_init (''Q1D.v2'', 4, True, ''4.0'')" unknown_version_env
             "record_with ''Q1D.v2'' [0, 0, 0, 0, 0, 0, 0, 0] [0, 0, 0, 0, 0, 0, 0, 0]"
             default_args]
       mem unk
  have "add_result_data (record_with ''Q1D.v2'' [0, 0, 0, 0, 0, 0, 0, 0] [0, 0, 0, 0, 0, 0, 0, 0])
     (AlgResultRecord_init (''Q1D.v2'', 4, True, ''4.0''))
     = Inl (RuntimeError (''Unknown version '' @ res_version (AlgResultRecord_init (''Q1D.v2'', 4, True, ''4.0''))))"
    by blast
  with v have "add_result_data (record_with ''Q1D.v2'' [0, 0, 0, 0, 0, 0, 0, 0] [0, 0, 0, 0, 0, 0, 0, 0])
     (AlgResultRecord_init (''Q1D.v2'', 4, True, ''4.0''))
     = Inl (RuntimeError ''Unknown version 4.0'')" by simp
  with mem unk run show ?thesis by simp
qed

section \<open>The blacklist\<close>

text \<open>
  Claim C2, as amended. For every identity of the blacklist other than \<open>Q1D2.v1\<close>, the
  mapping that \<open>merge\<close> returns holds no record under that identity, whatever the
  flags are. (\<open>Q1D2.v1\<close> is the key under which the final rename stores the record of
  \<open>Q1D.v2\<close>, after the blacklist has been applied.)
\<close>

theorem blacklisted_not_returned:
  assumes "merge a e = Inr merged" and "load_blacklist e = Inr blacklist"
    and "item \<in> set blacklist" and "item \<noteq> ''Q1D2.v1''"
  shows "\<not> dict_contains merged item"
proof
  assume "dict_contains merged item"
  then obtain r where mem: "(item, r) \<in> set merged"
    by (auto simp: dict_contains_def dict_keys_def)
  from merge_member[OF assms(1) mem] obtain blacklist' where
    bl: "load_blacklist e = Inr blacklist'"
    and cases: "item \<notin> set blacklist' \<or> item = ''Q1D2.v1''"
    by blast
  from bl assms(2) have "blacklist' = blacklist" by simp
  with cases assms(3,4) show False by simp
qed

theorem blacklisted_not_returned_witness:
  "merge all_flags catalog_env = Inr [(''Q1D2.v1'', catalog_record)] \<and>
   load_blacklist catalog_env = Inr [''B.v1''] \<and>
   ''B.v1'' \<in> set [''B.v1''] \<and> ''B.v1'' \<noteq> ''Q1D2.v1'' \<and>
   \<not> dict_contains [(''Q1D2.v1'', catalog_record)] ''B.v1''"
proof -
  have run: "merge all_flags catalog_env = Inr [(''Q1D2.v1'', catalog_record)]"
    by code_simp
  have bl: "load_blacklist catalog_env = Inr [''B.v1'']"
    by code_simp
  have mem: "''B.v1'' \<in> set [''B.v1'']" by simp
  have ne: "''B.v1'' \<noteq> ''Q1D2.v1''" by simp
  from blacklisted_not_returned[OF run bl mem ne] run bl mem ne show ?thesis by simp
qed

text \<open>The flag \<open>include_blacklisted\<close> is read nowhere: \<open>merge\<close> does not depend on it.\<close>

lemma merge_ignores_include_blacklisted:
  "merge (a\<lparr>arg_include_blacklisted := b\<rparr>) e = merge a e"
  by (simp add: merge_def merge_filtered_def remove_unwanted_def to_delete_def)

text \<open>
  Claim C2 as stated fails for the identity \<open>Q1D2.v1\<close>: blacklisted and removed, it is
  back in the returned mapping once \<open>Q1D.v2\<close> has been renamed.
\<close>

theorem blacklisted_target_counterexample:
  "load_blacklist blacklisted_target_env = Inr [''Q1D2.v1''] \<and>
   merge default_args blacklisted_target_env =
     Inr [(''Q1D2.v1'',
           annotated ''Q1D2.v1'' [2, 0, 0, 0, 0, 0, 0, 0] [0, 0, 0, 0, 0, 0, 0, 0]
             ''          -'')] \<and>
   dict_contains
     [(''Q1D2.v1'',
       annotated ''Q1D2.v1'' [2, 0, 0, 0, 0, 0, 0, 0] [0, 0, 0, 0, 0, 0, 0, 0]
         ''          -'')] ''Q1D2.v1''"
proof -
  have "load_blacklist blacklisted_target_env = Inr [''Q1D2.v1'']"
    by code_simp
  moreover have "merge default_args blacklisted_target_env =
     Inr [(''Q1D2.v1'',
           annotated ''Q1D2.v1'' [2, 0, 0, 0, 0, 0, 0, 0] [0, 0, 0, 0, 0, 0, 0, 0]
             ''          -'')]"
    by code_simp
  moreover have "dict_contains
     [(''Q1D2.v1'',
       annotated ''Q1D2.v1'' [2, 0, 0, 0, 0, 0, 0, 0] [0, 0, 0, 0, 0, 0, 0, 0]
         ''          -'')] ''Q1D2.v1''"
    by (simp add: dict_contains_def dict_keys_def)
  ultimately show ?thesis by simp
qed

lemma load_blacklist_empty_file:
  "files e ''blacklist'' = Some [] \<Longrightarrow> load_blacklist e = Inr [[]]"
  by (simp add: load_blacklist_def open_read_def py_strip_def)

text \<open>
  Claim C9. If an entry of the blacklist is not a key of the merged mapping when the
  blacklist is applied, \<open>merge\<close> ends with a \<open>KeyError\<close> for an entry of the blacklist.
  An empty blacklist file loads as the single entry \<open>''\<close>, and a run with such a file
  always ends with an error.
\<close>

theorem missing_blacklist_entry_aborts:
  "(merge_annotated e = Inr merged \<and> load_blacklist e = Inr blacklist \<and>
    item \<in> set blacklist \<and> \<not> dict_contains merged item \<longrightarrow>
      (\<exists>k. k \<in> set blacklist \<and> merge a e = Inl (KeyError k))) \<and>
   (files e ''blacklist'' = Some [] \<longrightarrow>
      load_blacklist e = Inr [[]] \<and> (\<exists>err. merge a e = Inl err))"
proof -
  have part1: "\<exists>k. k \<in> set blacklist \<and> merge a e = Inl (KeyError k)"
    if an: "merge_annotated e = Inr merged" and bl: "load_blacklist e = Inr blacklist"
      and mem: "item \<in> set blacklist" and miss: "\<not> dict_contains merged item"
    for merged blacklist item
  proof -
    from mem miss have "\<not> set blacklist \<subseteq> fst ` set merged"
      by (auto simp: dict_contains_def dict_keys_def)
    from del_all_missing[OF this] obtain k where
      k: "k \<in> set blacklist" and d: "del_all merged blacklist = Inl (KeyError k)" by blast
    from an bl d have "merge a e = Inl (KeyError k)"
      by (simp add: merge_def merge_filtered_def)
    with k show ?thesis by blast
  qed
  have part2: "load_blacklist e = Inr [[]] \<and> (\<exists>err. merge a e = Inl err)"
    if f: "files e ''blacklist'' = Some []"
  proof -
    from load_blacklist_empty_file[OF f] have bl: "load_blacklist e = Inr [[]]" .
    have "\<exists>err. merge a e = Inl err"
    proof (cases "merge_annotated e")
      case (Inl err)
      then have "merge a e = Inl err" by (simp add: merge_def merge_filtered_def)
      then show ?thesis by blast
    next
      case (Inr annot)
      have "\<not> dict_contains annot []"
      proof
        assume "dict_contains annot []"
        then obtain r where "([], r) \<in> set annot"
          by (auto simp: dict_contains_def dict_keys_def)
        from merge_annotated_record[OF Inr this] show False by simp
      qed
      from part1[OF Inr bl _ this] show ?thesis by auto
    qed
    with bl show ?thesis by simp
  qed
  from part1 part2 show ?thesis by blast
qed

theorem missing_blacklist_entry_aborts_witness:
  "merge_annotated stale_blacklist_env =
     Inr [(''A.v1'',
           annotated ''A.v1'' [3, 0, 0, 0, 0, 0, 0, 0] [0, 0, 0, 0, 0, 0, 0, 0] ''          -'')] \<and>
   load_blacklist stale_blacklist_env = Inr [''Z.v9''] \<and>
   ''Z.v9'' \<in> set [''Z.v9''] \<and>
   \<not> dict_contains
       [(''A.v1'',
         annotated ''A.v1'' [3, 0, 0, 0, 0, 0, 0, 0] [0, 0, 0, 0, 0, 0, 0, 0] ''          -'')]
       ''Z.v9'' \<and>
   merge default_args stale_blacklist_env = Inl (KeyError ''Z.v9'') \<and>
   files example_env ''blacklist'' = Some [] \<and>
   load_blacklist example_env = Inr [[]] \<and>
   merge default_args example_env = Inl (KeyError [])"
proof -
  have an: "merge_annotated stale_blacklist_env =
     Inr [(''A.v1'',
           annotated ''A.v1'' [3, 0, 0, 0, 0, 0, 0, 0] [0, 0, 0, 0, 0, 0, 0, 0] ''          -'')]"
    by code_simp
  have bl: "load_blacklist stale_blacklist_env = Inr [''Z.v9'']"
    by code_simp
  have mem: "''Z.v9'' \<in> set [''Z.v9'']" by simp
  have miss: "\<not> dict_contains
       [(''A.v1'',
         annotated ''A.v1'' [3, 0, 0, 0, 0, 0, 0, 0] [0, 0, 0, 0, 0, 0, 0, 0] ''          -'')]
       ''Z.v9''"
    by (simp add: dict_contains_def dict_keys_def)
  have run: "merge default_args stale_blacklist_env = Inl (KeyError ''Z.v9'')"
    by code_simp
  have f: "files example_env ''blacklist'' = Some []"
    by (simp add: example_env_def run_env_def)
  have run2: "merge default_args example_env = Inl (KeyError [])"
    by code_simp
  from missing_blacklist_entry_aborts
         [of stale_blacklist_env
             "[(''A.v1'', annotated ''A.v1'' [3, 0, 0, 0, 0, 0, 0, 0] [0, 0, 0, 0, 0, 0, 0, 0]
                  ''          -'')]"
             "[''Z.v9'']" "''Z.v9''" default_args]
       missing_blacklist_entry_aborts [of example_env _ _ _ default_args]
       an bl mem miss run f run2
  show ?thesis by simp
qed

section \<open>The example run\<close>

text \<open>
  Claim C4, as amended. On the empty catalog, the two observations of \<open>A.v1\<close> and \<open>A.v2\<close>,
  an empty deprecated list and an empty blacklist file, \<open>merge\<close> does not succeed:
  loading the empty blacklist file yields the single entry \<open>''\<close>, which is no key, so
  the removal raises \<open>KeyError\<close>; and with nothing removed the rename would raise
  \<open>KeyError\<close> as well, \<open>Q1D.v2\<close> being absent. The mapping built before the blacklist is applied holds exactly
  two records: \<open>A.v1\<close>, marked superseded, with use count 3, and \<open>A.v2\<close>, not superseded,
  with use count 7 and internal fraction 1.
\<close>

theorem example_run_annotated:
  "merge_annotated example_env = Inr [(''A.v1'', example_A1), (''A.v2'', example_A2)] \<and>
   superseded example_A1 = Some ''superseded'' \<and> get_count example_A1 = 3 \<and>
   superseded example_A2 = Some ''          -'' \<and> get_count example_A2 = 7 \<and>
   get_internal_fraction example_A2 = Inr 1 \<and>
   load_blacklist example_env = Inr [[]] \<and>
   merge a example_env = Inl (KeyError []) \<and>
   remove_unwanted default_args [(''A.v1'', example_A1), (''A.v2'', example_A2)] =
     Inr [(''A.v1'', example_A1), (''A.v2'', example_A2)] \<and>
   special_cases [(''A.v1'', example_A1), (''A.v2'', example_A2)] = Inl (KeyError ''Q1D.v2'')"
proof -
  have "merge_annotated example_env = Inr [(''A.v1'', example_A1), (''A.v2'', example_A2)]"
    by code_simp
  moreover have "superseded example_A1 = Some ''superseded'' \<and> get_count example_A1 = 3"
    by (simp add: example_A1_def annotated_def record_with_def get_count_def)
  moreover have "superseded example_A2 = Some ''          -'' \<and> get_count example_A2 = 7"
    by (simp add: example_A2_def annotated_def record_with_def get_count_def)
  moreover have "get_internal_fraction example_A2 = Inr 1"
    by code_simp
  moreover have "load_blacklist example_env = Inr [[]]"
    by code_simp
  moreover have "merge a example_env = Inl (KeyError [])"
    by code_simp
  moreover have "remove_unwanted default_args [(''A.v1'', example_A1), (''A.v2'', example_A2)] =
     Inr [(''A.v1'', example_A1), (''A.v2'', example_A2)]"
    by code_simp
  moreover have "special_cases [(''A.v1'', example_A1), (''A.v2'', example_A2)]
      = Inl (KeyError ''Q1D.v2'')"
    by code_simp
  ultimately show ?thesis by simp
qed

text \<open>Claim C4 as stated fails: the run returns no mapping.\<close>

theorem example_run_counterexample:
  "merge default_args example_env = Inl (KeyError [])"
  by code_simp

section \<open>The rename\<close>

lemma rename_overwrites:
  assumes "dict_get merged src = Inr tmp" and "dict_get merged tgt = Inr old" and "src \<noteq> tgt"
  shows "\<exists>merged'. bindE (dict_get merged src) (\<lambda>tmp.
       bindE (dict_del merged src) (\<lambda>m. Inr (dict_set m tgt (tmp\<lparr>name := tgt\<rparr>)))) = Inr merged' \<and>
     dict_get merged' tgt = Inr (tmp\<lparr>name := tgt\<rparr>) \<and>
     dict_keys merged' = filter (\<lambda>k. k \<noteq> src) (dict_keys merged)"
proof -
  from assms(1) have s: "map_of merged src = Some tmp"
    by (simp add: dict_get_def split: option.splits)
  from assms(2) have t: "map_of merged tgt = Some old"
    by (simp add: dict_get_def split: option.splits)
  from map_of_SomeD[OF s] have "src \<in> fst ` set merged" by force
  then have del: "dict_del merged src = Inr (AList.delete src merged)"
    by (simp add: dict_del_def dict_contains_def dict_keys_def)
  let ?m' = "dict_set (AList.delete src merged) tgt (tmp\<lparr>name := tgt\<rparr>)"
  have run: "bindE (dict_get merged src) (\<lambda>tmp.
       bindE (dict_del merged src) (\<lambda>m. Inr (dict_set m tgt (tmp\<lparr>name := tgt\<rparr>)))) = Inr ?m'"
    using assms(1) del by simp
  have get: "dict_get ?m' tgt = Inr (tmp\<lparr>name := tgt\<rparr>)"
    by (simp add: dict_get_def dict_set_def update_conv')
  from t assms(3) have "map_of (AList.delete src merged) tgt = Some old"
    by (simp add: delete_conv')
  from map_of_SomeD[OF this] have "tgt \<in> fst ` set (AList.delete src merged)"
    by force
  then have "map fst ?m' = map fst (AList.delete src merged)"
    by (simp add: dict_set_def update_keys)
  also have "\<dots> = filter (\<lambda>k. k \<noteq> src) (map fst merged)"
    by (induction merged) (auto simp: AList.delete_eq)
  finally have keys: "dict_keys ?m' = filter (\<lambda>k. k \<noteq> src) (dict_keys merged)"
    by (simp add: dict_keys_def)
  from run get keys show ?thesis by blast
qed

text \<open>
  Claim C7, as amended. If \<open>Q1D2.v1\<close> is already a key when \<open>Q1D.v2\<close> is renamed,
  \<open>merge\<close> raises nothing: it returns the mapping in which the renamed record of
  \<open>Q1D.v2\<close> has replaced the record that was under \<open>Q1D2.v1\<close>, the other keys being
  those of before without \<open>Q1D.v2\<close>.
\<close>

theorem rename_replaces_existing_target:
  assumes "merge_filtered a e = Inr merged"
    and "dict_get merged ''Q1D.v2'' = Inr tmp" and "dict_get merged ''Q1D2.v1'' = Inr old"
  shows "\<exists>merged'. merge a e = Inr merged' \<and>
     dict_get merged' ''Q1D2.v1'' = Inr (tmp\<lparr>name := ''Q1D2.v1''\<rparr>) \<and>
     dict_keys merged' = filter (\<lambda>k. k \<noteq> ''Q1D.v2'') (dict_keys merged)"
proof -
  have ne: "''Q1D.v2'' \<noteq> ''Q1D2.v1''" by simp
  from rename_overwrites[OF assms(2,3) ne] show ?thesis
    unfolding merge_def special_cases_unfold using assms(1) by simp
qed

theorem rename_replaces_existing_target_witness:
  "merge_filtered default_args collision_env = Inr collision_filtered \<and>
   dict_get collision_filtered ''Q1D.v2'' =
     Inr (annotated ''Q1D.v2'' [2, 0, 0, 0, 0, 0, 0, 0] [0, 0, 0, 0, 0, 0, 0, 0] ''          -'') \<and>
   dict_get collision_filtered ''Q1D2.v1'' =
     Inr (annotated ''Q1D2.v1'' [9, 0, 0, 0, 0, 0, 0, 0] [0, 0, 0, 0, 0, 0, 0, 0] ''          -'') \<and>
   (\<exists>merged'. merge default_args collision_env = Inr merged' \<and>
      dict_get merged' ''Q1D2.v1'' =
        Inr (annotated ''Q1D2.v1'' [2, 0, 0, 0, 0, 0, 0, 0] [0, 0, 0, 0, 0, 0, 0, 0]
               ''          -'') \<and>
      dict_keys merged' = [''Q1D2.v1''])"
proof -
  have f: "merge_filtered default_args collision_env = Inr collision_filtered"
    by code_simp
  have g1: "dict_get collision_filtered ''Q1D.v2'' =
     Inr (annotated ''Q1D.v2'' [2, 0, 0, 0, 0, 0, 0, 0] [0, 0, 0, 0, 0, 0, 0, 0] ''          -'')"
    by code_simp
  have g2: "dict_get collision_filtered ''Q1D2.v1'' =
     Inr (annotated ''Q1D2.v1'' [9, 0, 0, 0, 0, 0, 0, 0] [0, 0, 0, 0, 0, 0, 0, 0] ''          -'')"
    by code_simp
  have rn: "(annotated ''Q1D.v2'' [2, 0, 0, 0, 0, 0, 0, 0] [0, 0, 0, 0, 0, 0, 0, 0]
               ''          -'')\<lparr>name := ''Q1D2.v1''\<rparr> =
        annotated ''Q1D2.v1'' [2, 0, 0, 0, 0, 0, 0, 0] [0, 0, 0, 0, 0, 0, 0, 0] ''          -''"
    by (simp add: annotated_def record_with_def)
  have ks: "filter (\<lambda>k. k \<noteq> ''Q1D.v2'') (dict_keys collision_filtered) = [''Q1D2.v1'']"
    by (simp add: collision_filtered_def dict_keys_def)
  from rename_replaces_existing_target[OF f g1 g2] rn ks f g1 g2 show ?thesis by simp
qed

text \<open>
  Claim C7 as stated fails: with both identities observed, the run succeeds, and the
  record with nine uses that was under \<open>Q1D2.v1\<close> is gone.
\<close>

theorem rename_collision_counterexample:
  "dict_get collision_filtered ''Q1D2.v1'' =
     Inr (annotated ''Q1D2.v1'' [9, 0, 0, 0, 0, 0, 0, 0] [0, 0, 0, 0, 0, 0, 0, 0] ''          -'') \<and>
   merge_filtered default_args collision_env = Inr collision_filtered \<and>
   merge default_args collision_env =
     Inr [(''Q1D2.v1'',
           annotated ''Q1D2.v1'' [2, 0, 0, 0, 0, 0, 0, 0] [0, 0, 0, 0, 0, 0, 0, 0]
             ''          -'')]"
proof -
  have "dict_get collision_filtered ''Q1D2.v1'' =
     Inr (annotated ''Q1D2.v1'' [9, 0, 0, 0, 0, 0, 0, 0] [0, 0, 0, 0, 0, 0, 0, 0] ''          -'')"
    by code_simp
  moreover have "merge_filtered default_args collision_env = Inr collision_filtered"
    by code_simp
  moreover have "merge default_args collision_env =
     Inr [(''Q1D2.v1'',
           annotated ''Q1D2.v1'' [2, 0, 0, 0, 0, 0, 0, 0] [0, 0, 0, 0, 0, 0, 0, 0]
             ''          -'')]"
    by code_simp
  ultimately show ?thesis by simp
qed

section \<open>Keys and names\<close>

text \<open>
  Claim C10. In the mapping that \<open>merge\<close> returns, every key is the \<open>name\<close> of the record
  it maps to: seeding from the catalog and folding the observations establish it
  (\<open>phase_A_name\<close>), the annotating passes and the removals keep it, and the rename sets
  the key and the name together.
\<close>

theorem merge_key_is_name:
  assumes "merge a e = Inr merged" and "(k, r) \<in> set merged"
  shows "name r = k"
proof -
  from merge_member[OF assms] obtain annot r0 where
    an: "merge_annotated e = Inr annot"
    and cases: "((k, r0) \<in> set annot \<and> r = r0 \<and> k \<noteq> ''Q1D.v2'') \<or>
      (k = ''Q1D2.v1'' \<and> (''Q1D.v2'', r0) \<in> set annot \<and> r = r0\<lparr>name := ''Q1D2.v1''\<rparr>)"
    by blast
  from cases show ?thesis
  proof
    assume c: "(k, r0) \<in> set annot \<and> r = r0 \<and> k \<noteq> ''Q1D.v2''"
    then have "(k, r0) \<in> set annot" by simp
    from merge_annotated_record[OF an this] c show ?thesis by simp
  next
    assume "k = ''Q1D2.v1'' \<and> (''Q1D.v2'', r0) \<in> set annot \<and> r = r0\<lparr>name := ''Q1D2.v1''\<rparr>"
    then show ?thesis by simp
  qed
qed

theorem merge_key_is_name_witness:
  "merge all_flags catalog_env = Inr [(''Q1D2.v1'', catalog_record)] \<and>
   (''Q1D2.v1'', catalog_record) \<in> set [(''Q1D2.v1'', catalog_record)] \<and>
   name catalog_record = ''Q1D2.v1''"
proof -
  have run: "merge all_flags catalog_env = Inr [(''Q1D2.v1'', catalog_record)]"
    by code_simp
  have mem: "(''Q1D2.v1'', catalog_record) \<in> set [(''Q1D2.v1'', catalog_record)]"
    by simp
  from merge_key_is_name[OF run mem] run mem show ?thesis by simp
qed

section \<open>What the returned records satisfy\<close>

text \<open>
  The records that \<open>merge\<close> returns have the attributes that \<open>get_summary\<close> reads, and
  their use counts are non-negative when no observation has a negative count.
\<close>

lemma merge_attributes_assigned:
  assumes "merge a e = Inr merged"
  shows "list_all (\<lambda>r. is_deprecated r \<noteq> None \<and> superseded r \<noteq> None) (dict_values merged)"
proof -
  have "is_deprecated r \<noteq> None \<and> superseded r \<noteq> None" if "(k, r) \<in> set merged" for k r
  proof -
    from merge_member[OF assms that] obtain annot r0 where
      an: "merge_annotated e = Inr annot"
      and cases: "((k, r0) \<in> set annot \<and> r = r0) \<or>
        ((''Q1D.v2'', r0) \<in> set annot \<and> r = r0\<lparr>name := ''Q1D2.v1''\<rparr>)"
      by blast
    from cases show ?thesis
    proof
      assume c: "(k, r0) \<in> set annot \<and> r = r0"
      then have "(k, r0) \<in> set annot" by simp
      from merge_annotated_record[OF an this] c show ?thesis by simp
    next
      assume c: "(''Q1D.v2'', r0) \<in> set annot \<and> r = r0\<lparr>name := ''Q1D2.v1''\<rparr>"
      then have "(''Q1D.v2'', r0) \<in> set annot" by simp
      from merge_annotated_record[OF an this] c show ?thesis by simp
    qed
  qed
  then show ?thesis by (auto simp: list_all_iff dict_values_def)
qed

lemma merge_entries_nonneg:
  assumes "merge a e = Inr merged" and "(k, r) \<in> set merged"
    and "list_all (\<lambda>res. 0 \<le> res_count res) (get_algorithm_results e)"
  shows "list_all (\<lambda>c. 0 \<le> c) (count_direct r @ count_internal r)"
proof -
  from merge_member[OF assms(1,2)] obtain annot r0 where
    an: "merge_annotated e = Inr annot"
    and cases: "((k, r0) \<in> set annot \<and> r = r0) \<or>
      ((''Q1D.v2'', r0) \<in> set annot \<and> r = r0\<lparr>name := ''Q1D2.v1''\<rparr>)"
    by blast
  from cases show ?thesis
  proof
    assume c: "(k, r0) \<in> set annot \<and> r = r0"
    then have "(k, r0) \<in> set annot" by simp
    from merge_annotated_nonneg[OF an this assms(3)] c show ?thesis by simp
  next
    assume c: "(''Q1D.v2'', r0) \<in> set annot \<and> r = r0\<lparr>name := ''Q1D2.v1''\<rparr>"
    then have "(''Q1D.v2'', r0) \<in> set annot" by simp
    from merge_annotated_nonneg[OF an this assms(3)] c show ?thesis by simp
  qed
qed

lemma merge_counts_nonneg:
  assumes "merge a e = Inr merged" and "(k, r) \<in> set merged"
    and "list_all (\<lambda>res. 0 \<le> res_count res) (get_algorithm_results e)"
  shows "0 \<le> get_count r"
  using merge_entries_nonneg[OF assms] by (simp add: get_count_def sum_list_nonneg_all)

section \<open>Use counts\<close>

lemma sum_list_add_at:
  "i < length xs \<Longrightarrow> sum_list (xs[i := xs ! i + c]) = sum_list xs + (c::int)"
  by (induction xs arbitrary: i) (auto split: nat.splits)

lemma add_result_data_count:
  assumes "add_result_data r res = Inr r'"
  shows "get_count r' = get_count r + res_count res"
  using assms
  by (auto simp: add_result_data_def bindE_Inr_iff list_add_at_def Let_def get_count_def
        sum_list_add_at split: if_splits)

text \<open>
  Claim C5, as amended. \<open>get_count\<close> returns the sum of the entries of the direct-count
  array plus the sum of the entries of the internal-count array, for every record, and
  folding an observation with \<open>add_result_data\<close> adds the count of that observation to
  it. For every record of a mapping that \<open>merge\<close> returns from raw results in which no
  observation has a negative count, this value is non-negative.
\<close>

theorem get_count_sum_nonneg:
  "get_count r = sum_list (count_direct r) + sum_list (count_internal r) \<and>
   (add_result_data r res = Inr r' \<longrightarrow> get_count r' = get_count r + res_count res) \<and>
   (merge a e = Inr merged \<and> (k, r) \<in> set merged \<and>
    list_all (\<lambda>res. 0 \<le> res_count res) (get_algorithm_results e) \<longrightarrow> 0 \<le> get_count r)"
  using add_result_data_count[of r res r'] merge_counts_nonneg[of a e merged k r]
  by (simp add: get_count_def)

theorem get_count_sum_nonneg_witness:
  "merge all_flags catalog_env = Inr [(''Q1D2.v1'', catalog_record)] \<and>
   (''Q1D2.v1'', catalog_record) \<in> set [(''Q1D2.v1'', catalog_record)] \<and>
   list_all (\<lambda>res. 0 \<le> res_count res) (get_algorithm_results catalog_env) \<and>
   get_count catalog_record = 4 \<and> 0 \<le> get_count catalog_record \<and>
   add_result_data (record_with ''A.v2'' [0, 0, 0, 0, 0, 0, 0, 0] [0, 0, 0, 0, 0, 0, 0, 0])
     (AlgResultRecord_init (''A.v2'', 7, True, ''3.6''))
     = Inr (record_with ''A.v2'' [0, 0, 0, 0, 0, 0, 0, 0] [0, 7, 0, 0, 0, 0, 0, 0]) \<and>
   get_count (record_with ''A.v2'' [0, 0, 0, 0, 0, 0, 0, 0] [0, 7, 0, 0, 0, 0, 0, 0]) =
     get_count (record_with ''A.v2'' [0, 0, 0, 0, 0, 0, 0, 0] [0, 0, 0, 0, 0, 0, 0, 0]) + 7"
proof -
  have run: "merge all_flags catalog_env = Inr [(''Q1D2.v1'', catalog_record)]"
    by code_simp
  have mem: "(''Q1D2.v1'', catalog_record) \<in> set [(''Q1D2.v1'', catalog_record)]"
    by simp
  have obs: "list_all (\<lambda>res. 0 \<le> res_count res) (get_algorithm_results catalog_env)"
    by (simp add: get_algorithm_results_def catalog_env_def run_env_def AlgResultRecord_init_def)
  have cnt: "get_count catalog_record = 4"
    by (simp add: catalog_record_def annotated_def record_with_def get_count_def)
  have fold: "add_result_data
       (record_with ''A.v2'' [0, 0, 0, 0, 0, 0, 0, 0] [0, 0, 0, 0, 0, 0, 0, 0])
       (AlgResultRecord_init (''A.v2'', 7, True, ''3.6''))
     = Inr (record_with ''A.v2'' [0, 0, 0, 0, 0, 0, 0, 0] [0, 7, 0, 0, 0, 0, 0, 0])"
    by code_simp
  have c7: "res_count (AlgResultRecord_init (''A.v2'', 7, True, ''3.6'')) = 7"
    by (simp add: AlgResultRecord_init_def)
  from get_count_sum_nonneg
         [of catalog_record _ _ all_flags catalog_env
             "[(''Q1D2.v1'', catalog_record)]" "''Q1D2.v1''"]
       get_count_sum_nonneg
         [of "record_with ''A.v2'' [0, 0, 0, 0, 0, 0, 0, 0] [0, 0, 0, 0, 0, 0, 0, 0]"
             "AlgResultRecord_init (''A.v2'', 7, True, ''3.6'')"
             "record_with ''A.v2'' [0, 0, 0, 0, 0, 0, 0, 0] [0, 7, 0, 0, 0, 0, 0, 0]"]
       run mem obs cnt fold c7
  show ?thesis by simp
qed

text \<open>
  Claim C5 as stated fails: a run whose raw results hold the line
  \<open>["Q1D.v2", -1, false, "3.5"]\<close> returns a record whose use count is \<open>-1\<close>.
\<close>

theorem get_count_negative_counterexample:
  "counts_of (merge default_args (run_env ''B.v1''
      [(''B.v1'', 1, False, ''3.5''), (''Q1D.v2'', -1, False, ''3.5'')]))
   = Inr [(''Q1D2.v1'', -1)]"
  by code_simp

section \<open>The internal fraction\<close>

lemma float_of_int_overflow:
  assumes "2 ^ 1024 \<le> n"
  shows "float_of_int n = Inl (OverflowError ''int too large to convert to float'')"
proof -
  define x where "x = round_double (of_int n)"
  define k :: int where "k = 1024"
  have k: "- 1022 \<le> k" "1024 \<le> k" by (simp_all add: k_def)
  have "(of_int (2 ^ 1024) :: rat) \<le> of_int n" using assms by (simp only: of_int_le_iff)
  moreover have "(of_int (2 ^ 1024) :: rat) = 2 powi k" by (simp add: k_def)
  ultimately have kn: "(2::rat) powi k \<le> of_int n" by (simp only:)
  have k0: "(0::rat) \<le> 2 powi k" by simp
  from round_double_mono[OF k0 kn] have le: "2 powi k \<le> x"
    unfolding x_def round_double_pow2[OF k(1)] .
  have kpos: "(0::rat) < 2 powi k" by simp
  with le have xpos: "0 < x" by linarith
  from ilog2_mono[OF kpos le] have "k \<le> ilog2 x" by (simp only: ilog2_pow2)
  with k(2) xpos have "x \<noteq> 0 \<and> 1024 \<le> ilog2 \<bar>x\<bar>" by simp
  then show ?thesis by (simp add: float_of_int_def Let_def x_def)
qed

text \<open>
  With no negative entry, the internal sum lies between 0 and the use count; the
  fraction of a record in use then is the rounded quotient of the two converted
  integers, or the \<open>OverflowError\<close> of a conversion.
\<close>

lemma internal_fraction_cases:
  assumes "list_all (\<lambda>c. 0 \<le> c) (count_direct r @ count_internal r)" and "0 < get_count r"
  shows "(get_internal_fraction r = Inl (OverflowError ''int too large to convert to float'') \<and>
          2 ^ 1023 < get_count r) \<or>
         (\<exists>v. get_internal_fraction r = Inr v \<and> 0 \<le> v \<and> v \<le> 1 \<and>
              (get_count r < 2 ^ 53 \<longrightarrow>
                 v = round_double (of_int (sum_list (count_internal r)) / of_int (get_count r))))"
proof -
  define s where "s = sum_list (count_internal r)"
  define c where "c = get_count r"
  from assms(1) have d0: "0 \<le> sum_list (count_direct r)" and s0: "0 \<le> s"
    by (simp_all add: sum_list_nonneg_all s_def)
  have sc: "s \<le> c" using d0 by (simp add: s_def c_def get_count_def)
  have c1: "1 \<le> c" using assms(2) by (simp add: c_def)
  have frac: "get_internal_fraction r = bindE (float_of_int s) (\<lambda>x. float_div_int x c)"
    using c1 by (simp add: get_internal_fraction_def Let_def s_def c_def)
  have c0: "0 \<le> c" using c1 by simp
  show ?thesis
  proof (cases "c \<le> 2 ^ 1023")
    case True
    with sc have s_small: "s \<le> 2 ^ 1023" by linarith
    from float_of_int_in_range[OF s0 s_small]
    have fs: "float_of_int s = Inr (round_double (of_int s))" .
    from float_of_int_in_range[OF c0 True]
    have fc: "float_of_int c = Inr (round_double (of_int c))" .
    from float_quotient_range[OF s0 sc c1 fs fc] frac fs
    have res: "get_internal_fraction r =
        Inr (round_double (round_double (of_int s) / round_double (of_int c)))"
      and rng: "0 \<le> round_double (round_double (of_int s) / round_double (of_int c))"
        "round_double (round_double (of_int s) / round_double (of_int c)) \<le> 1"
      by simp_all
    have exact: "round_double (round_double (of_int s) / round_double (of_int c)) =
        round_double (of_int s / of_int c)" if small: "c < 2 ^ 53"
    proof -
      from sc small have "s < 2 ^ 53" by linarith
      from float_of_int_exact[OF s0 this] fs
      have "round_double (of_int s) = of_int s" by simp
      moreover from float_of_int_exact[OF c0 small] fc
      have "round_double (of_int c) = of_int c" by simp
      ultimately show ?thesis by simp
    qed
    from res rng exact show ?thesis unfolding s_def c_def by blast
  next
    case False
    then have big: "2 ^ 1023 < c" by simp
    then have nsmall: "\<not> c < 2 ^ 53" by simp
    show ?thesis
    proof (cases "float_of_int s")
      case (Inl err)
      with float_of_int_cases[of s]
      have "float_of_int s = Inl (OverflowError ''int too large to convert to float'')"
        by simp
      with frac big show ?thesis unfolding c_def by simp
    next
      case (Inr x)
      note fs = this
      show ?thesis
      proof (cases "float_of_int c")
        case (Inl err)
        with float_of_int_cases[of c]
        have "float_of_int c = Inl (OverflowError ''int too large to convert to float'')"
          by simp
        with frac fs big show ?thesis unfolding c_def by (simp add: float_div_int_def)
      next
        case (Inr y)
        from float_quotient_range[OF s0 sc c1 fs Inr] frac fs nsmall
        show ?thesis unfolding c_def by simp
      qed
    qed
  qed
qed

lemma get_internal_fraction_overflow:
  assumes "list_all (\<lambda>c. 0 \<le> c) (count_direct r @ count_internal r)"
    and "2 ^ 1024 \<le> sum_list (count_internal r)"
  shows "get_internal_fraction r = Inl (OverflowError ''int too large to convert to float'')"
proof -
  from assms(1) have "0 \<le> sum_list (count_direct r)" by (simp add: sum_list_nonneg_all)
  with assms(2) have "2 ^ 1024 \<le> get_count r" by (simp add: get_count_def)
  moreover have "(1::int) \<le> 2 ^ 1024" by (rule one_le_power) simp
  ultimately have "\<not> get_count r < 1" by linarith
  with float_of_int_overflow[OF assms(2)] show ?thesis
    by (simp add: get_internal_fraction_def Let_def)
qed

text \<open>
  Claim C6, as amended. \<open>get_internal_fraction\<close> returns exactly 1.0 when the use count is
  below 1, so when it is 0. For a record with no negative entry in its two arrays and a
  positive use count, it returns the float quotient of the sum of the internal counts
  by the use count, a value in the closed interval from 0 to 1, unless an integer is
  too large for a float: up to a use count of \<open>2 ^ 1023\<close> it returns such a value, below
  \<open>2 ^ 53\<close> that value is the double nearest to the exact quotient, and beyond
  \<open>2 ^ 1023\<close> it returns such a value or raises \<open>OverflowError\<close>. The same holds of every
  record that \<open>merge\<close> returns from raw results with no negative count.
\<close>

theorem get_internal_fraction_range:
  "(get_count r < 1 \<longrightarrow> get_internal_fraction r = Inr 1) \<and>
   (list_all (\<lambda>c. 0 \<le> c) (count_direct r @ count_internal r) \<or>
    (merge a e = Inr merged \<and> (k, r) \<in> set merged \<and>
     list_all (\<lambda>res. 0 \<le> res_count res) (get_algorithm_results e)) \<longrightarrow>
      (get_count r = 0 \<longrightarrow> get_internal_fraction r = Inr 1) \<and>
      (0 < get_count r \<and> get_count r < 2 ^ 53 \<longrightarrow>
         get_internal_fraction r =
           Inr (round_double (of_int (sum_list (count_internal r)) / of_int (get_count r)))) \<and>
      (0 < get_count r \<and> get_count r \<le> 2 ^ 1023 \<longrightarrow>
         (\<exists>v. get_internal_fraction r = Inr v \<and> 0 \<le> v \<and> v \<le> 1)) \<and>
      (get_internal_fraction r = Inl (OverflowError ''int too large to convert to float'') \<or>
       (\<exists>v. get_internal_fraction r = Inr v \<and> 0 \<le> v \<and> v \<le> 1)))"
proof -
  have low: "get_count r < 1 \<Longrightarrow> get_internal_fraction r = Inr 1"
    by (simp add: get_internal_fraction_def)
  have rest: "(get_count r = 0 \<longrightarrow> get_internal_fraction r = Inr 1) \<and>
      (0 < get_count r \<and> get_count r < 2 ^ 53 \<longrightarrow>
         get_internal_fraction r =
           Inr (round_double (of_int (sum_list (count_internal r)) / of_int (get_count r)))) \<and>
      (0 < get_count r \<and> get_count r \<le> 2 ^ 1023 \<longrightarrow>
         (\<exists>v. get_internal_fraction r = Inr v \<and> 0 \<le> v \<and> v \<le> 1)) \<and>
      (get_internal_fraction r = Inl (OverflowError ''int too large to convert to float'') \<or>
       (\<exists>v. get_internal_fraction r = Inr v \<and> 0 \<le> v \<and> v \<le> 1))"
    if nn: "list_all (\<lambda>c. 0 \<le> c) (count_direct r @ count_internal r)"
  proof (cases "0 < get_count r")
    case True
    from internal_fraction_cases[OF nn True] True show ?thesis by auto
  next
    case False
    then have "get_count r < 1" by simp
    from low[OF this] have f: "get_internal_fraction r = Inr 1" .
    have "(0::rat) \<le> 1 \<and> (1::rat) \<le> 1" by simp
    with f have "\<exists>v. get_internal_fraction r = Inr v \<and> 0 \<le> v \<and> v \<le> 1" by blast
    with f False show ?thesis by blast
  qed
  have nn: "list_all (\<lambda>c. 0 \<le> c) (count_direct r @ count_internal r)"
    if "merge a e = Inr merged \<and> (k, r) \<in> set merged \<and>
        list_all (\<lambda>res. 0 \<le> res_count res) (get_algorithm_results e)"
    using that merge_entries_nonneg[of a e merged k r] by blast
  from low rest nn show ?thesis by blast
qed

theorem get_internal_fraction_range_witness:
  "list_all (\<lambda>c. 0 \<le> c)
     (count_direct (record_with ''A.v3'' [2, 0, 0, 0, 0, 0, 0, 0] [0, 1, 0, 0, 0, 0, 0, 0]) @
      count_internal (record_with ''A.v3'' [2, 0, 0, 0, 0, 0, 0, 0] [0, 1, 0, 0, 0, 0, 0, 0])) \<and>
   get_count (record_with ''A.v3'' [2, 0, 0, 0, 0, 0, 0, 0] [0, 1, 0, 0, 0, 0, 0, 0]) = 3 \<and>
   get_internal_fraction (record_with ''A.v3'' [2, 0, 0, 0, 0, 0, 0, 0] [0, 1, 0, 0, 0, 0, 0, 0])
     = Inr (6004799503160661 / 18014398509481984) \<and>
   get_count (record_with ''A.v1'' [0, 0, 0, 0, 0, 0, 0, 0] [0, 0, 0, 0, 0, 0, 0, 0]) < 1 \<and>
   get_internal_fraction (record_with ''A.v1'' [0, 0, 0, 0, 0, 0, 0, 0] [0, 0, 0, 0, 0, 0, 0, 0])
     = Inr 1 \<and>
   merge all_flags catalog_env = Inr [(''Q1D2.v1'', catalog_record)] \<and>
   (''Q1D2.v1'', catalog_record) \<in> set [(''Q1D2.v1'', catalog_record)] \<and>
   list_all (\<lambda>res. 0 \<le> res_count res) (get_algorithm_results catalog_env) \<and>
   get_internal_fraction catalog_record = Inr 1"
proof -
  have nn: "list_all (\<lambda>c. 0 \<le> c)
     (count_direct (record_with ''A.v3'' [2, 0, 0, 0, 0, 0, 0, 0] [0, 1, 0, 0, 0, 0, 0, 0]) @
      count_internal (record_with ''A.v3'' [2, 0, 0, 0, 0, 0, 0, 0] [0, 1, 0, 0, 0, 0, 0, 0]))"
    by (simp add: record_with_def)
  have c3: "get_count (record_with ''A.v3'' [2, 0, 0, 0, 0, 0, 0, 0] [0, 1, 0, 0, 0, 0, 0, 0]) = 3"
    by (simp add: record_with_def get_count_def)
  have s1: "sum_list (count_internal
      (record_with ''A.v3'' [2, 0, 0, 0, 0, 0, 0, 0] [0, 1, 0, 0, 0, 0, 0, 0])) = 1"
    by (simp add: record_with_def)
  have rd: "round_double (1 / 3) = 6004799503160661 / 18014398509481984"
    by code_simp
  have c0: "get_count (record_with ''A.v1'' [0, 0, 0, 0, 0, 0, 0, 0] [0, 0, 0, 0, 0, 0, 0, 0]) < 1"
    by (simp add: record_with_def get_count_def)
  have run: "merge all_flags catalog_env = Inr [(''Q1D2.v1'', catalog_record)]"
    by code_simp
  have mem: "(''Q1D2.v1'', catalog_record) \<in> set [(''Q1D2.v1'', catalog_record)]"
    by simp
  have obs: "list_all (\<lambda>res. 0 \<le> res_count res) (get_algorithm_results catalog_env)"
    by (simp add: get_algorithm_results_def catalog_env_def run_env_def AlgResultRecord_init_def)
  have f1: "get_internal_fraction catalog_record = Inr 1"
    by code_simp
  from get_internal_fraction_range
         [of "record_with ''A.v3'' [2, 0, 0, 0, 0, 0, 0, 0] [0, 1, 0, 0, 0, 0, 0, 0]"]
       nn c3 s1 rd
  have f3: "get_internal_fraction
      (record_with ''A.v3'' [2, 0, 0, 0, 0, 0, 0, 0] [0, 1, 0, 0, 0, 0, 0, 0])
     = Inr (6004799503160661 / 18014398509481984)"
    by simp
  from get_internal_fraction_range
         [of "record_with ''A.v1'' [0, 0, 0, 0, 0, 0, 0, 0] [0, 0, 0, 0, 0, 0, 0, 0]"]
       c0
  have f0: "get_internal_fraction
      (record_with ''A.v1'' [0, 0, 0, 0, 0, 0, 0, 0] [0, 0, 0, 0, 0, 0, 0, 0]) = Inr 1"
    by simp
  from nn c3 f3 c0 f0 run mem obs f1 show ?thesis by simp
qed

text \<open>
  Claim C6 as stated fails: with the lines \<open>["Q1D.v2", -5, false, "3.5"]\<close> and
  \<open>["Q1D.v2", 6, true, "3.5"]\<close> in the raw results, the returned record has use count 1
  and internal fraction 6, outside the interval.
\<close>

theorem get_internal_fraction_counterexample:
  "merge default_args (run_env ''B.v1''
      [(''B.v1'', 1, False, ''3.5''), (''Q1D.v2'', -5, False, ''3.5''),
       (''Q1D.v2'', 6, True, ''3.5'')])
     = Inr [(''Q1D2.v1'', mixed_sign_record)] \<and>
   get_count mixed_sign_record = 1 \<and>
   get_internal_fraction mixed_sign_record = Inr 6"
proof -
  have "merge default_args (run_env ''B.v1''
      [(''B.v1'', 1, False, ''3.5''), (''Q1D.v2'', -5, False, ''3.5''),
       (''Q1D.v2'', 6, True, ''3.5'')])
     = Inr [(''Q1D2.v1'', mixed_sign_record)]"
    by code_simp
  moreover have "get_count mixed_sign_record = 1"
    by (simp add: mixed_sign_record_def annotated_def record_with_def get_count_def)
  moreover have "get_internal_fraction mixed_sign_record = Inr 6"
    by code_simp
  ultimately show ?thesis by simp
qed

section \<open>The summary counts\<close>

lemma summary_step_counts:
  assumes "is_deprecated r \<noteq> None" "superseded r \<noteq> None"
  shows "\<exists>s'. summary_step a s r = Inr s' \<and>
      total s' = total s + 1 \<and>
      unused s' = unused s + (if get_count r = 0 then 1 else 0) \<and>
      untested s' = untested s + (if \<not> has_test r then 1 else 0) \<and>
      deprecated s' = deprecated s + (if is_deprecated r = Some True then 1 else 0) \<and>
      n_superseded s' = n_superseded s + (if superseded r = Some ''superseded'' then 1 else 0)"
  using assms by (auto simp: summary_step_def Let_def)

lemma summary_loop_counts:
  assumes "list_all (\<lambda>r. is_deprecated r \<noteq> None \<and> superseded r \<noteq> None) rs"
  shows "\<exists>s'. summary_loop a s rs = Inr s' \<and>
      total s' = total s + length rs \<and>
      unused s' = unused s + length (filter (\<lambda>r. get_count r = 0) rs) \<and>
      untested s' = untested s + length (filter (\<lambda>r. \<not> has_test r) rs) \<and>
      deprecated s' = deprecated s + length (filter (\<lambda>r. is_deprecated r = Some True) rs) \<and>
      n_superseded s' = n_superseded s +
        length (filter (\<lambda>r. superseded r = Some ''superseded'') rs)"
  using assms
proof (induction rs arbitrary: s)
  case Nil
  then show ?case by simp
next
  case (Cons r rs)
  then have a1: "is_deprecated r \<noteq> None" "superseded r \<noteq> None"
    and a2: "list_all (\<lambda>r. is_deprecated r \<noteq> None \<and> superseded r \<noteq> None) rs"
    by simp_all
  from summary_step_counts[OF a1, of a s] obtain s1 where
    s1: "summary_step a s r = Inr s1"
      "total s1 = total s + 1"
      "unused s1 = unused s + (if get_count r = 0 then 1 else 0)"
      "untested s1 = untested s + (if \<not> has_test r then 1 else 0)"
      "deprecated s1 = deprecated s + (if is_deprecated r = Some True then 1 else 0)"
      "n_superseded s1 = n_superseded s + (if superseded r = Some ''superseded'' then 1 else 0)"
    by blast
  from Cons.IH[OF a2, of s1] obtain s2 where
    s2: "summary_loop a s1 rs = Inr s2"
      "total s2 = total s1 + length rs"
      "unused s2 = unused s1 + length (filter (\<lambda>r. get_count r = 0) rs)"
      "untested s2 = untested s1 + length (filter (\<lambda>r. \<not> has_test r) rs)"
      "deprecated s2 = deprecated s1 + length (filter (\<lambda>r. is_deprecated r = Some True) rs)"
      "n_superseded s2 = n_superseded s1 +
        length (filter (\<lambda>r. superseded r = Some ''superseded'') rs)"
    by blast
  have "summary_loop a s (r # rs) = Inr s2" using s1(1) s2(1) by simp
  then show ?case using s1 s2 by simp
qed

lemma summary_counts_of_assigned:
  assumes "list_all (\<lambda>r. is_deprecated r \<noteq> None \<and> superseded r \<noteq> None) (dict_values merged)"
  shows "\<exists>s. get_summary a merged = Inr s \<and>
      unused s = length (filter (\<lambda>r. get_count r = 0) (dict_values merged)) \<and>
      untested s = length (filter (\<lambda>r. \<not> has_test r) (dict_values merged)) \<and>
      deprecated s = length (filter (\<lambda>r. is_deprecated r = Some True) (dict_values merged)) \<and>
      n_superseded s =
        length (filter (\<lambda>r. superseded r = Some ''superseded'') (dict_values merged))"
  using summary_loop_counts[OF assms, of a Summary_init]
  by (auto simp: get_summary_def Summary_init_def)

text \<open>
  Claim C8. For every mapping that \<open>merge\<close> returns, under whatever flags the summary is
  asked for, \<open>get_summary\<close> returns a summary whose unused count is the number of records
  with use count 0, whose untested count is the number of records with \<open>has_test\<close>
  false, whose deprecated count is the number of records with \<open>is_deprecated\<close> true, and
  whose superseded count is the number of records marked superseded.
\<close>

theorem get_summary_counts:
  assumes "merge a e = Inr merged"
  shows "\<exists>s. get_summary a' merged = Inr s \<and>
      unused s = length (filter (\<lambda>r. get_count r = 0) (dict_values merged)) \<and>
      untested s = length (filter (\<lambda>r. \<not> has_test r) (dict_values merged)) \<and>
      deprecated s = length (filter (\<lambda>r. is_deprecated r = Some True) (dict_values merged)) \<and>
      n_superseded s =
        length (filter (\<lambda>r. superseded r = Some ''superseded'') (dict_values merged))"
  using summary_counts_of_assigned[OF merge_attributes_assigned[OF assms]] .

theorem get_summary_counts_witness:
  "merge default_args (run_env ''B.v1''
      [(''B.v1'', 1, False, ''3.5''), (''Q1D.v1'', 0, False, ''3.5''),
       (''Q1D.v2'', 4, True, ''3.6'')]) = Inr summary_example \<and>
   (\<exists>s. get_summary default_args summary_example = Inr s \<and>
      unused s = 1 \<and> untested s = 2 \<and> deprecated s = 0 \<and> n_superseded s = 1)"
proof -
  have run: "merge default_args (run_env ''B.v1''
      [(''B.v1'', 1, False, ''3.5''), (''Q1D.v1'', 0, False, ''3.5''),
       (''Q1D.v2'', 4, True, ''3.6'')]) = Inr summary_example"
    by code_simp
  have n1: "length (filter (\<lambda>r. get_count r = 0) (dict_values summary_example)) = 1"
    by (simp add: summary_example_def dict_values_def annotated_def record_with_def get_count_def)
  have n2: "length (filter (\<lambda>r. \<not> has_test r) (dict_values summary_example)) = 2"
    by (simp add: summary_example_def dict_values_def annotated_def record_with_def)
  have n3: "length (filter (\<lambda>r. is_deprecated r = Some True) (dict_values summary_example)) = 0"
    by (simp add: summary_example_def dict_values_def annotated_def record_with_def)
  have n4: "length (filter (\<lambda>r. superseded r = Some ''superseded'') (dict_values summary_example)) = 1"
    by (simp add: summary_example_def dict_values_def annotated_def record_with_def)
  from get_summary_counts[OF run, of default_args] n1 n2 n3 n4 run
  show ?thesis by auto
qed

end
